theory Spec2Isabelle
  imports Main "HOL-Library.Char_ord" "HOL-Library.List_Lexorder" "HOL-Library.Multiset"
    "HOL-Library.Sublist"
begin

section \<open>JavaScript values\<close>

text \<open>
  The generator builds and inspects plain JavaScript values: OpenAPI fragments, validation
  rules and route settings. They are modelled as one tree type. An object is the list of its
  own properties in insertion order; a property that is absent and one that holds
  \<open>undefined\<close> both read as \<open>JUndefined\<close>. Numbers are the integers the rules carry
  (lengths and counts).
\<close>

datatype json =
    JUndefined
  | JNull
  | JBool bool
  | JNum int
  | JStr string
  | JArr "json list"
  | JObj "(string \<times> json) list"

datatype error =
    Error string
  | TypeError

text \<open>Truthiness, as \<open>if (x)\<close>, \<open>x ? a : b\<close>, \<open>x && y\<close> and \<open>Boolean(x)\<close> read it.\<close>

fun truthy :: "json \<Rightarrow> bool" where
  "truthy JUndefined = False"
| "truthy JNull = False"
| "truthy (JBool b) = b"
| "truthy (JNum n) = (n \<noteq> 0)"
| "truthy (JStr s) = (s \<noteq> [])"
| "truthy (JArr xs) = True"
| "truthy (JObj kvs) = True"

text \<open>\<open>a ?? b\<close>\<close>

definition nullish :: "json \<Rightarrow> json \<Rightarrow> json" where
  "nullish a b = (if a = JUndefined \<or> a = JNull then b else a)"

text \<open>\<open>o?.[k]\<close>: the property, \<open>undefined\<close> when it is absent or \<open>o\<close> is no object.\<close>

fun js_get :: "json \<Rightarrow> string \<Rightarrow> json" where
  "js_get (JObj kvs) k = (case map_of kvs k of Some v \<Rightarrow> v | None \<Rightarrow> JUndefined)"
| "js_get j k = JUndefined"

text \<open>\<open>o?.a?.b?.c\<close>\<close>

fun js_path :: "json \<Rightarrow> string list \<Rightarrow> json" where
  "js_path j [] = j"
| "js_path j (k # ks) = js_path (js_get j k) ks"

text \<open>
  \<open>o[k] = v\<close> on the property list: an existing property keeps its place, a new one goes
  last.
\<close>

fun put :: "string \<Rightarrow> 'a \<Rightarrow> (string \<times> 'a) list \<Rightarrow> (string \<times> 'a) list" where
  "put k v [] = [(k, v)]"
| "put k v ((k', v') # kvs) = (if k = k' then (k, v) # kvs else (k', v') # put k v kvs)"

text \<open>\<open>delete o[k]\<close>\<close>

definition del :: "string \<Rightarrow> (string \<times> 'a) list \<Rightarrow> (string \<times> 'a) list" where
  "del k kvs = filter (\<lambda>(k', v). k' \<noteq> k) kvs"

text \<open>\<open>Object.fromEntries(es)\<close>; \<open>{...a, ...b}\<close> writes the properties of b over a copy of a.\<close>

definition fromEntries :: "(string \<times> 'a) list \<Rightarrow> (string \<times> 'a) list" where
  "fromEntries es = fold (\<lambda>(k, v) acc. put k v acc) es []"

definition spread :: "(string \<times> 'a) list \<Rightarrow> (string \<times> 'a) list \<Rightarrow> (string \<times> 'a) list" where
  "spread a b = fold (\<lambda>(k, v) acc. put k v acc) b a"

text \<open>\<open>Object.entries(o)\<close> of a value typed as an object.\<close>

fun entries :: "json \<Rightarrow> (string \<times> json) list" where
  "entries (JObj kvs) = kvs"
| "entries j = []"

definition js_set :: "string \<Rightarrow> json \<Rightarrow> json \<Rightarrow> json" where
  "js_set k v j = JObj (put k v (entries j))"

text \<open>\<open>a === b\<close> for the primitive values compared in the generator (strings, booleans).\<close>

fun primitive :: "json \<Rightarrow> bool" where
  "primitive (JArr xs) = False"
| "primitive (JObj kvs) = False"
| "primitive j = True"

definition strict_eq :: "json \<Rightarrow> json \<Rightarrow> bool" where
  "strict_eq a b = (primitive a \<and> a = b)"

text \<open>A throw ends the computation: the rest runs on the value returned.\<close>

fun bind_err :: "error + 'a \<Rightarrow> ('a \<Rightarrow> error + 'b) \<Rightarrow> error + 'b" where
  "bind_err (Inl e) f = Inl e"
| "bind_err (Inr x) f = f x"

lemma bind_err_cong [fundef_cong]:
  "m = m' \<Longrightarrow> (\<And>x. m' = Inr x \<Longrightarrow> f x = f' x) \<Longrightarrow> bind_err m f = bind_err m' f'"
  by (cases m') auto

text \<open>A loop whose body may throw: \<open>forEach\<close> with an accumulator, and \<open>map\<close>.\<close>

fun foldM_err :: "('a \<Rightarrow> 'b \<Rightarrow> error + 'b) \<Rightarrow> 'a list \<Rightarrow> 'b \<Rightarrow> error + 'b" where
  "foldM_err f [] acc = Inr acc"
| "foldM_err f (x # xs) acc = bind_err (f x acc) (foldM_err f xs)"

fun mapM_err :: "('a \<Rightarrow> error + 'b) \<Rightarrow> 'a list \<Rightarrow> error + 'b list" where
  "mapM_err f [] = Inr []"
| "mapM_err f (x # xs) = bind_err (f x) (\<lambda>y. bind_err (mapM_err f xs) (\<lambda>ys. Inr (y # ys)))"

text \<open>Decimal digits of a number, for \<open>`${name}.${i++}`\<close> and array indices.\<close>

fun show_nat :: "nat \<Rightarrow> string" where
  "show_nat n = (if n < 10 then [char_of (48 + n)] else show_nat (n div 10) @ [char_of (48 + n mod 10)])"

declare show_nat.simps [simp del]

text \<open>
  \<open>Object.entries(v)\<close> of any value but \<open>undefined\<close> and \<open>null\<close> (for which it throws): the
  properties of an object, the indexed elements of an array, the indexed characters of a
  string, nothing for a number or a boolean.
\<close>

fun Object_entries :: "json \<Rightarrow> (string \<times> json) list" where
  "Object_entries (JObj kvs) = kvs"
| "Object_entries (JArr xs) = map (\<lambda>i. (show_nat i, xs ! i)) [0..<length xs]"
| "Object_entries (JStr s) = map (\<lambda>i. (show_nat i, JStr [s ! i])) [0..<length s]"
| "Object_entries j = []"

text \<open>
  The property names of \<open>Object.prototype\<close> (ECMAScript, Annex B included). A plain object
  used as a dictionary reads them through its prototype, all as truthy values (functions;
  \<open>__proto__\<close> reads the prototype itself).
\<close>

definition objectPrototypeNames :: "string list" where
  "objectPrototypeNames =
     [''constructor'', ''__defineGetter__'', ''__defineSetter__'', ''hasOwnProperty'',
      ''__lookupGetter__'', ''__lookupSetter__'', ''isPrototypeOf'', ''propertyIsEnumerable'',
      ''toString'', ''valueOf'', ''__proto__'', ''toLocaleString'']"

section \<open>FastestValidatorConverter: the array mapper\<close>

text \<open>
  \<open>getFastestValidatorMappers\<close> receives \<open>getSchemaObjectFromRule\<close> as an argument and the
  mappers call back into it; the mapper below takes it the same way. The converter returns
  \<open>undefined\<close> for a rule that yields no fragment and may throw.
\<close>

type_synonym converter = "json \<Rightarrow> json \<Rightarrow> json \<Rightarrow> error + json"

definition array_mapper :: "converter \<Rightarrow> json \<Rightarrow> error + json" where
  "array_mapper getSchemaObjectFromRule rule =
     (case (if truthy (js_get rule ''items'')
            then getSchemaObjectFromRule (js_get rule ''items'')
                   (JObj [(''enum'', js_get rule ''enum'')]) JUndefined
            else Inr JUndefined) of
        Inl e \<Rightarrow> Inl e
      | Inr converted \<Rightarrow>
          let itemsSchema = nullish converted (JObj []);
              schema = JObj
                [(''type'', JStr ''array''),
                 (''examples'', if truthy (js_get rule ''default'')
                                then JArr [js_get rule ''default''] else JUndefined),
                 (''uniqueItems'', js_get rule ''unique''),
                 (''default'', js_get rule ''default''),
                 (''items'', itemsSchema)]
          in Inr (if truthy (js_get rule ''length'')
                  then js_set ''minItems'' (js_get rule ''length'')
                         (js_set ''maxItems'' (js_get rule ''length'') schema)
                  else js_set ''minItems'' (js_get rule ''min'')
                         (js_set ''maxItems'' (js_get rule ''max'') schema)))"

section \<open>OpenApiGenerator: components\<close>

text \<open>
  A \<open>ComponentsObject\<close>: section name (\<open>schemas\<close>, \<open>responses\<close>, ...) to the section's named
  entries.
\<close>

type_synonym components = "(string \<times> (string \<times> json) list) list"

definition section_of :: "components \<Rightarrow> string \<Rightarrow> (string \<times> json) list" where
  "section_of c key = (case map_of c key of Some es \<Rightarrow> es | None \<Rightarrow> [])"

text \<open>
  \<open>mergeComponents\<close> reduces over the keys of \<open>c2\<close>, starting from the copy \<open>{...c1}\<close>
  (as a value, \<open>c1\<close>).
\<close>

definition mergeComponents :: "components \<Rightarrow> components \<Rightarrow> components" where
  "mergeComponents c1 c2 =
     fold (\<lambda>key acc.
             if map (fst) (section_of c2 key) = [] then acc
             else put key (spread (section_of c1 key) (section_of c2 key)) acc)
          (map fst c2) c1"

text \<open>
  \<open>cleanComponents\<close> takes what the caller's document or the merged route settings hold
  under \<open>components\<close>: \<open>undefined\<close> is replaced by the default \<open>{}\<close>; for \<open>null\<close>, and for a
  section that is \<open>undefined\<close> or \<open>null\<close>, \<open>Object.entries\<close> throws a TypeError.
\<close>

definition cleanComponents :: "json \<Rightarrow> error + components" where
  "cleanComponents cs =
     (if cs = JNull then Inl TypeError
      else bind_err
             (mapM_err (\<lambda>(k, v).
                  if v = JUndefined \<or> v = JNull then Inl TypeError
                  else Inr (k, fromEntries (filter (\<lambda>(key, val). val \<noteq> JBool False)
                                               (Object_entries v))))
                (Object_entries cs))
             (\<lambda>es. Inr (fromEntries es)))"

section \<open>OpenApiGenerator: removeExtensions\<close>

text \<open>
  \<open>removeExtensions\<close> maps over an array, and for any other value whose \<open>typeof\<close> is
  \<open>object\<close> deletes every key of \<open>EOAExtensions\<close> and rebuilds the object from its
  entries. \<open>typeof null\<close> is \<open>object\<close> too, and \<open>delete null[k]\<close> throws a TypeError. The
  keys of the enum \<open>EOAExtensions\<close> (constants.js) are the argument \<open>exts\<close>.
\<close>

lemma size_fold_del:
  "size_list f (fold del exts kvs) \<le> size_list f kvs"
proof (induction exts arbitrary: kvs)
  case Nil
  then show ?case by simp
next
  case (Cons x exts)
  have "size_list f (del x kvs) \<le> size_list f kvs"
    unfolding del_def by (induction kvs) auto
  with Cons [of "del x kvs"] show ?case by simp
qed

function removeExtensions :: "string list \<Rightarrow> json \<Rightarrow> error + json"
  and removeExtensions_items :: "string list \<Rightarrow> json list \<Rightarrow> error + json list"
  and removeExtensions_entries :: "string list \<Rightarrow> (string \<times> json) list \<Rightarrow> error + (string \<times> json) list"
where
  "removeExtensions exts (JArr xs) =
     (case removeExtensions_items exts xs of Inl e \<Rightarrow> Inl e | Inr ys \<Rightarrow> Inr (JArr ys))"
| "removeExtensions exts (JObj kvs) =
     (case removeExtensions_entries exts (fold del exts kvs) of
        Inl e \<Rightarrow> Inl e
      | Inr es \<Rightarrow> Inr (JObj (fromEntries es)))"
| "removeExtensions exts JNull = Inl TypeError"
| "removeExtensions exts JUndefined = Inr JUndefined"
| "removeExtensions exts (JBool b) = Inr (JBool b)"
| "removeExtensions exts (JNum n) = Inr (JNum n)"
| "removeExtensions exts (JStr s) = Inr (JStr s)"
| "removeExtensions_items exts [] = Inr []"
| "removeExtensions_items exts (x # xs) =
     (case removeExtensions exts x of
        Inl e \<Rightarrow> Inl e
      | Inr y \<Rightarrow> (case removeExtensions_items exts xs of Inl e \<Rightarrow> Inl e | Inr ys \<Rightarrow> Inr (y # ys)))"
| "removeExtensions_entries exts [] = Inr []"
| "removeExtensions_entries exts ((k, v) # kvs) =
     (case removeExtensions exts v of
        Inl e \<Rightarrow> Inl e
      | Inr y \<Rightarrow> (case removeExtensions_entries exts kvs of
                    Inl e \<Rightarrow> Inl e
                  | Inr es \<Rightarrow> Inr ((k, y) # es)))"
  by pat_completeness auto

termination
proof (relation "measure (\<lambda>x. case x of
          Inl (exts, j) \<Rightarrow> size j
        | Inr (Inl (exts, xs)) \<Rightarrow> size_list size xs
        | Inr (Inr (exts, kvs)) \<Rightarrow> size_list (size_prod (\<lambda>_. 0) size) kvs)")
  fix exts :: "string list" and kvs :: "(string \<times> json) list"
  show "(Inr (Inr (exts, fold del exts kvs)), Inl (exts, JObj kvs)) \<in> measure (\<lambda>x. case x of
          Inl (exts, j) \<Rightarrow> size j
        | Inr (Inl (exts, xs)) \<Rightarrow> size_list size xs
        | Inr (Inr (exts, kvs)) \<Rightarrow> size_list (size_prod (\<lambda>_. 0) size) kvs)"
    using size_fold_del [of "size_prod (\<lambda>_. 0) size" exts kvs] by simp
qed simp_all

text \<open>No object anywhere in the tree, at any depth and inside arrays, has a key of \<open>exts\<close>.\<close>

fun marker_free :: "string list \<Rightarrow> json \<Rightarrow> bool"
  and marker_free_items :: "string list \<Rightarrow> json list \<Rightarrow> bool"
  and marker_free_entries :: "string list \<Rightarrow> (string \<times> json) list \<Rightarrow> bool"
where
  "marker_free exts (JArr xs) = marker_free_items exts xs"
| "marker_free exts (JObj kvs) = marker_free_entries exts kvs"
| "marker_free exts JNull = True"
| "marker_free exts JUndefined = True"
| "marker_free exts (JBool b) = True"
| "marker_free exts (JNum n) = True"
| "marker_free exts (JStr s) = True"
| "marker_free_items exts [] = True"
| "marker_free_items exts (x # xs) = (marker_free exts x \<and> marker_free_items exts xs)"
| "marker_free_entries exts [] = True"
| "marker_free_entries exts ((k, v) # kvs) =
     (k \<notin> set exts \<and> marker_free exts v \<and> marker_free_entries exts kvs)"

section \<open>Constants\<close>

text \<open>
  constants.js is not among the sources. Its values are taken as they come: the four keys
  of the enum \<open>EOAExtensions\<close>, the method list \<open>ALLOWING_BODY_METHODS\<close>, the table
  \<open>BODY_PARSERS_CONTENT_TYPE\<close> and the default strings.
\<close>

record constants =
  ext_optional :: string
  ext_description :: string
  ext_summary :: string
  ext_deprecated :: string
  ALLOWING_BODY_METHODS :: "string list"
  BODY_PARSERS_CONTENT_TYPE :: "(string \<times> string list) list"
  DEFAULT_CONTENT_TYPE :: string
  DEFAULT_MULTI_PART_FIELD_NAME :: string
  DEFAULT_SUMMARY_TEMPLATE :: string
  UNRESOLVED_ACTION_NAME :: string

text \<open>\<open>Object.values(EOAExtensions)\<close>\<close>

definition EOAExtensions_values :: "constants \<Rightarrow> string list" where
  "EOAExtensions_values K = [ext_optional K, ext_description K, ext_summary K, ext_deprecated K]"

text \<open>
  Modelled from the spec: \<open>multiOAProperties\<close> (constants.js) is missing; the spec names the
  compositions whose object-typed members are registered as one-of, any-of and all-of.
\<close>

definition multiOAProperties :: "string list" where
  "multiOAProperties = [''oneOf'', ''allOf'', ''anyOf'']"

section \<open>OpenApiGenerator: the component store\<close>

text \<open>
  The generator instance owns \<open>this.components\<close> and a logger. The messages of
  \<open>logger.warn\<close> are kept, oldest first:
  \<^item> \<open>SchemaOverwrite n\<close>: "Generator - schema n already exist and will be overwrite";
  \<^item> \<open>AlreadyRegister m p a\<close>: "M p is already register by action a skip";
  \<^item> \<open>ManualVersion\<close>: "setting manually the openapi version is not supported".
\<close>

datatype warning =
    SchemaOverwrite string
  | AlreadyRegister string string string
  | ManualVersion

record generator =
  components :: components
  warnings :: "warning list"

definition warn :: "warning \<Rightarrow> generator \<Rightarrow> generator" where
  "warn w g = g\<lparr>warnings := warnings g @ [w]\<rparr>"

definition schemas :: "generator \<Rightarrow> string \<Rightarrow> json option" where
  "schemas g name = map_of (section_of (components g) ''schemas'') name"

text \<open>The elements of a value typed as an array.\<close>

fun items_of :: "json \<Rightarrow> json list" where
  "items_of (JArr xs) = xs"
| "items_of j = []"

lemma size_js_get: "truthy (js_get rule k) \<Longrightarrow> size (js_get rule k) < size rule"
proof (cases rule)
  case (JObj kvs)
  assume t: "truthy (js_get rule k)"
  with JObj obtain v where v: "map_of kvs k = Some v" "js_get rule k = v"
    by (auto split: option.splits)
  then have "(k, v) \<in> set kvs" by (simp add: map_of_SomeD)
  then have "size v < size_list (size_prod (\<lambda>_. 0) size) kvs"
    by (induction kvs) auto
  with v JObj show ?thesis by simp
qed auto

lemma size_entries_js_get:
  "truthy (js_get rule k) \<Longrightarrow> size_list (size_prod (\<lambda>_. 0) size) (entries (js_get rule k)) < size rule"
  using size_js_get [of rule k] by (cases "js_get rule k") auto

lemma size_items_js_get:
  "truthy (js_get rule k) \<Longrightarrow> size_list size (items_of (js_get rule k)) < size rule"
  using size_js_get [of rule k] by (cases "js_get rule k") auto

text \<open>
  Names for two statements of \<open>_createSchemaComponentFromObject\<close>. \<open>registered\<close> is the
  test \<open>if (this.components.schemas[name])\<close>: \<open>schemas\<close> is a plain object, so the read
  finds the own property of that name or else the member of \<open>Object.prototype\<close> of that
  name. \<open>storeComponent\<close> is the assignment \<open>this.components.schemas[name] = component\<close>.
\<close>

definition registered :: "generator \<Rightarrow> string \<Rightarrow> bool" where
  "registered g name =
     (case schemas g name of
        Some c \<Rightarrow> truthy c
      | None \<Rightarrow> name \<in> set objectPrototypeNames)"

definition storeComponent :: "string \<Rightarrow> json \<Rightarrow> generator \<Rightarrow> generator" where
  "storeComponent name component g =
     g\<lparr>components := put ''schemas'' (put name component (section_of (components g) ''schemas''))
                        (components g)\<rparr>"

text \<open>
  \<open>_createSchemaComponentFromObject\<close> and \<open>_createSchemaPartFromRule\<close>. The callbacks of
  the source are the functions over lists: \<open>createProperties\<close> is the \<open>map\<close> over
  \<open>Object.entries(obj)\<close> (it also collects \<open>required\<close>), \<open>createMulti\<close> the \<open>forEach\<close> over
  \<open>multiOAProperties\<close> and \<open>createMembers\<close> its inner \<open>map\<close>, both threading the counter
  \<open>i\<close>. A fragment is a schema object by type; for \<open>undefined\<close> or \<open>null\<close> (a nested field
  whose rule gave no fragment) the property read \<open>rule[...]\<close> throws a TypeError.
  The first three assignments of \<open>_createSchemaPartFromRule\<close> write \<open>description\<close>,
  \<open>title\<close> and \<open>deprecated\<close> (giving \<open>rule1\<close>); the keys read afterwards (\<open>type\<close>,
  \<open>properties\<close>, \<open>items\<close>, \<open>default\<close> and the three of \<open>multiOAProperties\<close>) are other
  keys, so they are read from the rule as passed in, and the assignments of the
  \<open>forEach\<close> go to \<open>acc\<close>.
\<close>

function createSchemaComponentFromObject ::
    "constants \<Rightarrow> string \<Rightarrow> (string \<times> json) list \<Rightarrow> json \<Rightarrow> generator \<Rightarrow> error + (json \<times> generator)"
  and createProperties ::
    "constants \<Rightarrow> string \<Rightarrow> (string \<times> json) list \<Rightarrow> generator
       \<Rightarrow> error + (string list \<times> (string \<times> json) list \<times> generator)"
  and createSchemaPartFromRule ::
    "constants \<Rightarrow> string \<Rightarrow> json \<Rightarrow> generator \<Rightarrow> error + (json \<times> generator)"
  and createMulti ::
    "constants \<Rightarrow> string \<Rightarrow> string list \<Rightarrow> json \<Rightarrow> json \<Rightarrow> nat \<Rightarrow> generator
       \<Rightarrow> error + (json \<times> nat \<times> generator)"
  and createMembers ::
    "constants \<Rightarrow> string \<Rightarrow> json list \<Rightarrow> nat \<Rightarrow> generator \<Rightarrow> error + (json list \<times> nat \<times> generator)"
where
  "createSchemaComponentFromObject K schemeName obj customDefault g =
     (let g0 = (if map_of (components g) ''schemas'' = None
                then g\<lparr>components := put ''schemas'' [] (components g)\<rparr> else g)
      in bind_err (createProperties K schemeName obj g0) (\<lambda>(required, properties, g1).
           let g2 = (if registered g1 schemeName
                     then warn (SchemaOverwrite schemeName) g1 else g1);
               component = JObj
                 [(''type'', JStr ''object''),
                  (''properties'', JObj (fromEntries properties)),
                  (''required'', if required \<noteq> [] then JArr (map JStr required) else JUndefined),
                  (''default'', customDefault)];
               g3 = storeComponent schemeName component g2
           in Inr (JObj [(''$ref'', JStr (''#/components/schemas/'' @ schemeName))], g3)))"
| "createProperties K schemeName [] g = Inr ([], [], g)"
| "createProperties K schemeName ((fieldName, rule) # rest) g =
     (if rule = JUndefined \<or> rule = JNull then Inl TypeError
      else
        let nextSchemeName = schemeName @ ''.'' @ fieldName;
            required = (if js_get rule (ext_optional K) \<noteq> JBool True then [fieldName] else [])
        in bind_err (createSchemaPartFromRule K nextSchemeName rule g) (\<lambda>(part, g1).
             bind_err (createProperties K schemeName rest g1) (\<lambda>(requireds, properties, g2).
               Inr (required @ requireds, (fieldName, part) # properties, g2))))"
| "createSchemaPartFromRule K nextSchemeName rule g =
     (if rule = JUndefined \<or> rule = JNull then Inl TypeError
      else
        let rule1 = js_set ''deprecated'' (js_get rule (ext_deprecated K))
                      (js_set ''title'' (js_get rule (ext_summary K))
                        (js_set ''description'' (js_get rule (ext_description K)) rule))
        in if js_get rule ''type'' = JStr ''object'' \<and> truthy (js_get rule ''properties'')
           then bind_err (createSchemaComponentFromObject K nextSchemeName
                            (entries (js_get rule ''properties'')) (js_get rule ''default'') g)
                  (\<lambda>(ref, g1).
                     Inr (JObj (spread
                            [(''summary'', js_get rule1 ''title''),
                             (''deprecated'', js_get rule1 ''deprecated''),
                             (''description'', js_get rule1 ''description'')]
                            (entries ref)), g1))
           else if js_get rule ''type'' = JStr ''array'' \<and> truthy (js_get rule ''items'')
           then bind_err (createSchemaPartFromRule K nextSchemeName (js_get rule ''items'') g)
                  (\<lambda>(part, g1). Inr (js_set ''items'' part rule1, g1))
           else if list_ex (\<lambda>property. truthy (js_get rule property)) multiOAProperties
           then bind_err (createMulti K nextSchemeName multiOAProperties rule rule1 0 g)
                  (\<lambda>(rule2, i, g1). Inr (rule2, g1))
           else Inr (rule1, g))"
| "createMulti K nextSchemeName [] rule acc i g = Inr (acc, i, g)"
| "createMulti K nextSchemeName (property # properties) rule acc i g =
     (if \<not> truthy (js_get rule property)
      then createMulti K nextSchemeName properties rule acc i g
      else bind_err (createMembers K nextSchemeName (items_of (js_get rule property)) i g)
             (\<lambda>(members, i1, g1).
                createMulti K nextSchemeName properties rule
                  (js_set property (JArr members) acc) i1 g1))"
| "createMembers K nextSchemeName [] i g = Inr ([], i, g)"
| "createMembers K nextSchemeName (schema # rest) i g =
     (if schema = JUndefined \<or> schema = JNull then Inl TypeError
      else if js_get schema ''type'' \<noteq> JStr ''object''
      then bind_err (createMembers K nextSchemeName rest i g)
             (\<lambda>(members, i1, g1). Inr (schema # members, i1, g1))
      else bind_err (createSchemaPartFromRule K (nextSchemeName @ ''.'' @ show_nat i) schema g)
             (\<lambda>(part, g1).
                bind_err (createMembers K nextSchemeName rest (Suc i) g1)
                  (\<lambda>(members, i1, g2). Inr (part # members, i1, g2))))"
  apply pat_completeness
  apply (simp_all only: prod.inject list.inject sum.inject list.distinct sum.distinct simp_thms)
  done

termination createSchemaComponentFromObject
proof (relation "measure (\<lambda>x. case x of
       Inl (Inl (K, n, obj, d, g)) \<Rightarrow> 5 * size_list (size_prod (\<lambda>_. 0) size) obj + 1
     | Inl (Inr (K, n, obj, g)) \<Rightarrow> 5 * size_list (size_prod (\<lambda>_. 0) size) obj
     | Inr (Inl (K, n, rule, g)) \<Rightarrow> 5 * size rule + 4
     | Inr (Inr (Inl (K, n, ps, rule, acc, i, g))) \<Rightarrow> 5 * size rule + length ps
     | Inr (Inr (Inr (K, n, xs, i, g))) \<Rightarrow> 5 * size_list size xs)", goal_cases)
  case 1
  show ?case by (simp only: wf_measure)
next
  case (5 K n rule)
  then have "truthy (js_get rule ''properties'')" by blast
  from size_entries_js_get [OF this] show ?case
    by ((simp only: in_measure sum.case prod.case), simp?)
next
  case (6 K n rule)
  then have "truthy (js_get rule ''items'')" by blast
  from size_js_get [OF this] show ?case
    by ((simp only: in_measure sum.case prod.case), simp?)
next
  case 7
  then show ?case
    by ((simp only: in_measure sum.case prod.case multiOAProperties_def), simp?)
next
  case (9 K n property ps rule)
  then have "truthy (js_get rule property)" by blast
  from size_items_js_get [OF this] show ?case
    by ((simp only: in_measure sum.case prod.case), simp?)
next
  case 2 show ?case by ((simp only: in_measure sum.case prod.case), simp?)
next
  case 3 show ?case by ((simp only: in_measure sum.case prod.case), simp?)
next
  case 4 show ?case by ((simp only: in_measure sum.case prod.case), simp?)
next
  case 8 show ?case by ((simp only: in_measure sum.case prod.case), simp?)
next
  case 10 show ?case by ((simp only: in_measure sum.case prod.case), simp?)
next
  case 11 show ?case by ((simp only: in_measure sum.case prod.case), simp?)
next
  case 12 show ?case by ((simp only: in_measure sum.case prod.case), simp?)
next
  case 13 show ?case by ((simp only: in_measure sum.case prod.case), simp?)
qed

text \<open>
  The two recursive equations without patterns are unfolded by hand where needed.
\<close>

declare createSchemaComponentFromObject.simps [simp del]
declare createSchemaPartFromRule.simps [simp del]

text \<open>
  The list \<open>required\<close> that \<open>_createSchemaComponentFromObject\<close> collects: the fields whose
  fragment does not carry the optional marker.
\<close>

definition requiredFields :: "constants \<Rightarrow> (string \<times> json) list \<Rightarrow> string list" where
  "requiredFields K obj = map fst (filter (\<lambda>(fieldName, rule). js_get rule (ext_optional K) \<noteq> JBool True) obj)"

text \<open>
  A fragment that \<open>_createSchemaPartFromRule\<close> can walk without reading a property of
  \<open>undefined\<close> or \<open>null\<close>: the fragment, and every nested field, item and object-typed
  composition member it visits, is there.
\<close>

function wellFormed :: "json \<Rightarrow> bool"
  and wellFormedFields :: "(string \<times> json) list \<Rightarrow> bool"
  and wellFormedMulti :: "string list \<Rightarrow> json \<Rightarrow> bool"
  and wellFormedMembers :: "json list \<Rightarrow> bool"
where
  "wellFormed rule =
     (rule \<noteq> JUndefined \<and> rule \<noteq> JNull \<and>
      (if js_get rule ''type'' = JStr ''object'' \<and> truthy (js_get rule ''properties'')
       then wellFormedFields (entries (js_get rule ''properties''))
       else if js_get rule ''type'' = JStr ''array'' \<and> truthy (js_get rule ''items'')
       then wellFormed (js_get rule ''items'')
       else wellFormedMulti multiOAProperties rule))"
| "wellFormedFields [] = True"
| "wellFormedFields ((fieldName, rule) # rest) = (wellFormed rule \<and> wellFormedFields rest)"
| "wellFormedMulti [] rule = True"
| "wellFormedMulti (property # properties) rule =
     ((if truthy (js_get rule property) then wellFormedMembers (items_of (js_get rule property))
       else True)
      \<and> wellFormedMulti properties rule)"
| "wellFormedMembers [] = True"
| "wellFormedMembers (schema # rest) =
     (schema \<noteq> JUndefined \<and> schema \<noteq> JNull \<and>
      (if js_get schema ''type'' \<noteq> JStr ''object'' then True else wellFormed schema)
      \<and> wellFormedMembers rest)"
  apply pat_completeness
  apply (simp_all only: prod.inject list.inject sum.inject list.distinct sum.distinct simp_thms)
  done

termination
proof (relation "measure (\<lambda>x. case x of
       Inl (Inl rule) \<Rightarrow> 5 * size rule + 4
     | Inl (Inr obj) \<Rightarrow> 5 * size_list (size_prod (\<lambda>_. 0) size) obj
     | Inr (Inl (ps, rule)) \<Rightarrow> 5 * size rule + length ps
     | Inr (Inr xs) \<Rightarrow> 5 * size_list size xs)", goal_cases)
  case 1
  show ?case by (simp only: wf_measure)
next
  case (2 rule)
  then have "truthy (js_get rule ''properties'')" by blast
  from size_entries_js_get [OF this] show ?case
    by ((simp only: in_measure sum.case prod.case), simp?)
next
  case (3 rule)
  then have "truthy (js_get rule ''items'')" by blast
  from size_js_get [OF this] show ?case
    by ((simp only: in_measure sum.case prod.case), simp?)
next
  case 4
  show ?case by ((simp only: in_measure sum.case prod.case multiOAProperties_def), simp?)
next
  case 5
  show ?case by ((simp only: in_measure sum.case prod.case), simp?)
next
  case 6
  show ?case by ((simp only: in_measure sum.case prod.case), simp?)
next
  case (7 property properties rule)
  from size_items_js_get [OF 7] show ?case
    by ((simp only: in_measure sum.case prod.case), simp?)
next
  case 8
  show ?case by ((simp only: in_measure sum.case prod.case), simp?)
next
  case 9
  show ?case by ((simp only: in_measure sum.case prod.case), simp?)
next
  case 10
  show ?case by ((simp only: in_measure sum.case prod.case), simp?)
qed

declare wellFormed.simps [simp del]

section \<open>FastestValidatorConverter: schemas\<close>

definition startsWith :: "string \<Rightarrow> string \<Rightarrow> bool" where
  "startsWith k p = (take (length p) k = p)"

definition getValidationRules :: "json \<Rightarrow> (string \<times> json) list" where
  "getValidationRules schema =
     fromEntries (filter (\<lambda>(k, v). \<not> startsWith k ''$$'') (entries schema))"

definition getMetas :: "json \<Rightarrow> (string \<times> json) list" where
  "getMetas schema = fromEntries (filter (\<lambda>(k, v). startsWith k ''$$'') (entries schema))"

text \<open>
  The generator reaches the converter through \<open>getSchemaObjectFromRule\<close>, which asks the
  validator library to normalise the rule and then runs the mapper of its type. It is the
  argument \<open>conv\<close> of everything below: \<open>conv rule parentProperties parentSchema\<close>.
\<close>

fun mapM_entries :: "(json \<Rightarrow> error + json) \<Rightarrow> (string \<times> json) list \<Rightarrow> error + (string \<times> json) list" where
  "mapM_entries f [] = Inr []"
| "mapM_entries f ((k, v) # kvs) =
     bind_err (f v) (\<lambda>y. bind_err (mapM_entries f kvs) (\<lambda>ys. Inr ((k, y) # ys)))"

definition getSchemaObjectFromSchema :: "converter \<Rightarrow> json \<Rightarrow> error + (string \<times> json) list" where
  "getSchemaObjectFromSchema conv schema =
     bind_err (mapM_entries (\<lambda>v. conv v JUndefined schema) (getValidationRules schema))
       (\<lambda>es. Inr (fromEntries es))"

definition getSchemaObjectFromRootSchema :: "converter \<Rightarrow> json \<Rightarrow> error + json" where
  "getSchemaObjectFromRootSchema conv schema =
     (if js_get schema ''$$root'' \<noteq> JBool True
      then Inl (Error ''this function only support $$root objects'')
      else conv (JObj (del ''$$root'' (entries schema))) JUndefined JUndefined)"

section \<open>OpenApiGenerator: references\<close>

definition components_json :: "components \<Rightarrow> json" where
  "components_json c = JObj (map (\<lambda>(k, es). (k, JObj es)) c)"

definition components_of_json :: "json \<Rightarrow> components" where
  "components_of_json j = map (\<lambda>(k, v). (k, entries v)) (entries j)"

text \<open>\<open>s.split(c)\<close>\<close>

fun split_on :: "char \<Rightarrow> string \<Rightarrow> string list" where
  "split_on c [] = [[]]"
| "split_on c (x # xs) =
     (if x = c then [] # split_on c xs
      else (case split_on c xs of w # ws \<Rightarrow> (x # w) # ws | [] \<Rightarrow> [[x]]))"

text \<open>
  \<open>o.hasOwnProperty(k) ? o[k] : undefined\<close>: the properties of an object, and the indices and
  \<open>length\<close> of an array or a string.
\<close>

fun own_property :: "json \<Rightarrow> string \<Rightarrow> json" where
  "own_property (JObj kvs) k = js_get (JObj kvs) k"
| "own_property (JArr xs) k =
     (if k = ''length'' then JNum (int (length xs))
      else (case find (\<lambda>i. show_nat i = k) [0..<length xs] of
              Some i \<Rightarrow> xs ! i | None \<Rightarrow> JUndefined))"
| "own_property (JStr s) k =
     (if k = ''length'' then JNum (int (length s))
      else (case find (\<lambda>i. show_nat i = k) [0..<length s] of
              Some i \<Rightarrow> JStr [s ! i] | None \<Rightarrow> JUndefined))"
| "own_property j k = JUndefined"

text \<open>
  The callback of the \<open>reduce\<close> in \<open>getComponentByRef\<close>. It calls
  \<open>currentObject.hasOwnProperty(segment)\<close>: on an object with an own property named
  \<open>hasOwnProperty\<close> (a component or a section of that name) that property, which is no
  function, is what is called, and the call throws a TypeError.
\<close>

definition refStep :: "string \<Rightarrow> json \<Rightarrow> error + json" where
  "refStep segment currentObject =
     (if \<not> truthy currentObject then Inr JUndefined
      else if map_of (entries currentObject) ''hasOwnProperty'' \<noteq> None then Inl TypeError
      else Inr (own_property currentObject segment))"

definition getComponentByRef :: "generator \<Rightarrow> string \<Rightarrow> error + json" where
  "getComponentByRef g path =
     (case filter (\<lambda>segment. segment \<noteq> []) (split_on CHR ''/'' path) of
        s0 # s1 # s2 # s3 # rest \<Rightarrow>
          if s0 \<noteq> ''#'' \<or> s1 \<noteq> ''components'' \<or> s2 \<notin> set (map fst (components g))
          then Inr JUndefined
          else foldM_err refStep (s2 # s3 # rest) (components_json (components g))
      | _ \<Rightarrow> Inr JUndefined)"

definition isReferenceObject :: "json \<Rightarrow> bool" where
  "isReferenceObject component = truthy (js_get component ''$ref'')"

text \<open>\<open>$ref\<close> is a string by type; \<open>path.split\<close> of another truthy value throws.\<close>

definition componentOfRef :: "generator \<Rightarrow> json \<Rightarrow> error + json" where
  "componentOfRef g component =
     (case js_get component ''$ref'' of
        JStr path \<Rightarrow> getComponentByRef g path
      | _ \<Rightarrow> Inl TypeError)"

definition getComponent :: "generator \<Rightarrow> json \<Rightarrow> error + json" where
  "getComponent g component =
     (if \<not> isReferenceObject component then Inr component
      else bind_err (componentOfRef g component) (\<lambda>refComponent.
             if \<not> truthy refComponent then Inl (Error ''fail to get component'')
             else Inr refComponent))"

section \<open>OpenApiGenerator: parameters and request body\<close>

text \<open>
  Modelled from the spec: \<open>matchAll\<close> (commons.js) is missing. \<open>extractParamsFromUrl\<close> runs
  it with the pattern \<open>/{(\w+)}/g\<close> and flattens the result; per the spec that is one
  name per \<open>{name}\<close>-style placeholder of the URL template, in order of appearance.
  \<open>placeholders\<close> scans for the pattern from left to right as the regular expression does.
\<close>

definition word_char :: "char \<Rightarrow> bool" where
  "word_char c = (let n = (of_char c :: nat) in
      (48 \<le> n \<and> n \<le> 57) \<or> (65 \<le> n \<and> n \<le> 90) \<or> (97 \<le> n \<and> n \<le> 122) \<or> n = 95)"

function placeholders :: "string \<Rightarrow> string list" where
  "placeholders [] = []"
| "placeholders (c # cs) =
     (if c = CHR ''{''
      then (let w = takeWhile word_char cs; r = dropWhile word_char cs
            in if w \<noteq> [] \<and> take 1 r = ''}'' then w # placeholders (drop 1 r)
               else placeholders cs)
      else placeholders cs)"
  by pat_completeness auto

termination
proof (relation "measure length", goal_cases)
  case (2 c cs w r)
  have "length (drop 1 (dropWhile word_char cs)) \<le> length cs"
    using length_dropWhile_le [of word_char cs] by simp
  with 2 show ?case by simp
qed simp_all

definition extractParamsFromUrl :: "string \<Rightarrow> json list" where
  "extractParamsFromUrl url =
     map (\<lambda>name. JObj [(''name'', JStr name), (''in'', JStr ''path''), (''required'', JBool True),
                        (''schema'', JObj [(''type'', JStr ''string'')])])
         (placeholders url)"

text \<open>
  A route as the generator reads it. \<open>Alias\<close> (objects/Alias.js) is not among the sources:
  the results of its methods \<open>isJokerAlias()\<close> and \<open>getPaths()\<close> are fields. \<open>route\<close> holds
  \<open>alias.route\<close> (\<open>apiService\<close>, \<open>openApiService\<close>, \<open>bodyParsers\<close>, \<open>busboyConfig\<close>,
  \<open>autoAliases\<close>); \<open>summaryTemplate\<close> is
  \<open>alias.route?.openApiService?.settings?.summaryTemplate\<close>, kept apart because it may be a
  function of the three template variables (summary, action, autoAlias).
\<close>

datatype template =
    TplUndefined
  | TplString string
  | TplFunction "json \<Rightarrow> json \<Rightarrow> json \<Rightarrow> json"
  | TplOther

record pathAction =
  pa_method :: string
  pa_action :: json

record Alias =
  fullPath :: string
  alias_type :: json
  action :: json
  actionSchema :: json
  openapi :: json
  busboyConfig :: json
  route :: json
  summaryTemplate :: template
  isJokerAlias :: bool
  getPaths :: "pathAction list"

record parametersExtracted =
  parameters :: "json list"
  requestBody :: json

definition getParameters :: "constants \<Rightarrow> string \<Rightarrow> json \<Rightarrow> bool \<Rightarrow> (string \<times> json) list" where
  "getParameters K method params body =
     (let defaultInBody = (method \<in> set (ALLOWING_BODY_METHODS K))
      in fromEntries
           (filter (\<lambda>(k, param).
                      let openApiInParameter = js_path param [''$$oa'', ''in''];
                          inBody = (if truthy openApiInParameter
                                    then strict_eq openApiInParameter (JStr ''body'')
                                    else defaultInBody)
                      in inBody = body)
                   (getValidationRules params)))"

text \<open>
  The \<open>rules\<close> of \<open>createRequestBodyFromParams\<close>: the converted fields that are not
  excluded (path parameters) and have a fragment.
\<close>

definition bodyFields :: "json list \<Rightarrow> (string \<times> json) list \<Rightarrow> (string \<times> json) list" where
  "bodyFields exclude rootRules =
     fromEntries (filter (\<lambda>(name, rule). JStr name \<notin> set exclude \<and> truthy rule) rootRules)"

definition createRequestBodyFromParams ::
    "constants \<Rightarrow> converter \<Rightarrow> string \<Rightarrow> json \<Rightarrow> json list \<Rightarrow> generator \<Rightarrow> error + (json \<times> generator)" where
  "createRequestBodyFromParams K conv rootSchemeName obj exclude g =
     (if js_get obj ''$$root'' = JBool True
      then bind_err (getSchemaObjectFromRootSchema conv obj) (\<lambda>schema. Inr (schema, g))
      else bind_err (getSchemaObjectFromSchema conv obj) (\<lambda>rootRules.
             createSchemaComponentFromObject K rootSchemeName (bodyFields exclude rootRules)
               JUndefined g))"

text \<open>A value used as a property key or spliced into a string.\<close>

definition show_int :: "int \<Rightarrow> string" where
  "show_int n = (if n < 0 then ''-'' @ show_nat (nat (- n)) else show_nat (nat n))"

fun to_key :: "json \<Rightarrow> string" where
  "to_key (JStr s) = s"
| "to_key JUndefined = ''undefined''"
| "to_key JNull = ''null''"
| "to_key (JBool b) = (if b then ''true'' else ''false'')"
| "to_key (JNum n) = show_int n"
| "to_key j = ''[object Object]''"

text \<open>
  The first member of \<open>schema.allOf\<close> in \<open>generateFileUploadBody\<close>: the object with the
  file field.
\<close>

definition fileObjectOf :: "constants \<Rightarrow> Alias \<Rightarrow> json" where
  "fileObjectOf K a =
     (let binarySchema = JObj [(''type'', JStr ''string''), (''format'', JStr ''binary'')];
          filesLimit = nullish (js_path (busboyConfig a) [''limits'', ''files''])
                         (js_path (route a) [''busboyConfig'', ''limits'', ''files'']);
          fileField = to_key (nullish
                         (js_path (route a) [''openApiService'', ''settings'', ''multiPartFileFieldName''])
                         (JStr (DEFAULT_MULTI_PART_FIELD_NAME K)))
      in JObj
           [(''type'', JStr ''object''),
            (''properties'',
               JObj [(fileField,
                      if filesLimit = JNum 1 then binarySchema
                      else JObj [(''type'', JStr ''array''), (''items'', binarySchema),
                                 (''maxItems'', filesLimit)])]),
            (''required'', JArr [JStr fileField])])"

definition generateFileUploadBody ::
    "constants \<Rightarrow> converter \<Rightarrow> Alias \<Rightarrow> json list \<Rightarrow> generator \<Rightarrow> error + (json \<times> generator)" where
  "generateFileUploadBody K conv a excluded g =
     (let typeBodyParser =
            (if truthy (alias_type a) then map_of (BODY_PARSERS_CONTENT_TYPE K) (to_key (alias_type a))
             else map_of (BODY_PARSERS_CONTENT_TYPE K) ''multipart'');
          binarySchema = JObj [(''type'', JStr ''string''), (''format'', JStr ''binary'')];
          finish = (\<lambda>(schema, g1).
            case typeBodyParser of
              None \<Rightarrow> Inl TypeError
            | Some types \<Rightarrow>
                Inr (JObj [(''required'', JBool True),
                           (''content'',
                              JObj [(case types of t # ts \<Rightarrow> t | [] \<Rightarrow> ''undefined'',
                                     JObj [(''schema'', schema)])])], g1))
      in if alias_type a = JStr ''stream''
         then finish (binarySchema, g)
         else if js_path (actionSchema a) [''params'', ''$$root''] = JBool True
         then Inl (Error ''$$root parameters is not supported on multipart'')
         else
           let fileObject = fileObjectOf K a
           in if truthy (action a) \<and> truthy (js_get (actionSchema a) ''params'')
              then bind_err (createRequestBodyFromParams K conv (to_key (action a))
                               (js_get (actionSchema a) ''params'') excluded g)
                     (\<lambda>(paramsSchema, g1).
                        finish (JObj [(''allOf'',
                                  JArr (if truthy paramsSchema then [fileObject, paramsSchema]
                                        else [fileObject]))], g1))
              else finish (JObj [(''allOf'', JArr [fileObject])], g))"

text \<open>The callback of \<open>Object.entries(queryParameters).forEach\<close> in \<open>extractParameters\<close>.\<close>

definition queryParameter ::
    "constants \<Rightarrow> converter \<Rightarrow> generator \<Rightarrow> json list \<Rightarrow> string \<times> json \<Rightarrow> json list \<Rightarrow> error + json list" where
  "queryParameter K conv g excluded kv params =
     (case kv of (k, v) \<Rightarrow>
        bind_err (conv v JUndefined JUndefined) (\<lambda>schema.
          if \<not> truthy schema then Inr params
          else bind_err (getComponent g schema) (\<lambda>component.
            let isObject = strict_eq (js_get schema ''type'') (JStr ''object'');
                schemaParameter = JObj
                  [(''name'', JStr k),
                   (''in'', JStr ''query''),
                   (''style'', if isObject then JStr ''deepObject'' else JUndefined),
                   (''explode'', if isObject then JBool True else JUndefined),
                   (''required'', if \<not> strict_eq (js_get component (ext_optional K)) (JBool True)
                                  then JBool True else JUndefined),
                   (''schema'', schema)]
            in if JStr k \<notin> set excluded then Inr (params @ [schemaParameter])
               else Inr (map (\<lambda>parameter.
                               if \<not> strict_eq (js_get parameter ''name'') (JStr k) then parameter
                               else js_set ''required'' (JBool True)
                                      (js_set ''in'' (JStr ''path'') schemaParameter))
                             params))))"

text \<open>\<open>(x ?? []).length > 0\<close> for the \<open>required\<close> of a schema, an array of names by type.\<close>

fun nonempty :: "json \<Rightarrow> bool" where
  "nonempty (JArr xs) = (xs \<noteq> [])"
| "nonempty (JStr s) = (s \<noteq> [])"
| "nonempty (JObj kvs) = (case js_get (JObj kvs) ''length'' of JNum n \<Rightarrow> n > 0 | _ \<Rightarrow> False)"
| "nonempty j = False"

text \<open>The body of an ordinary route, once \<open>createRequestBodyFromParams\<close> has returned \<open>schema\<close>.\<close>

definition ordinaryBody :: "constants \<Rightarrow> Alias \<Rightarrow> json \<Rightarrow> json \<Rightarrow> generator \<Rightarrow> error + json" where
  "ordinaryBody K a openApiMetas schema g1 =
     (let tmpContentTypes = concat
            (map (\<lambda>(parser, v).
                    case map_of (BODY_PARSERS_CONTENT_TYPE K) parser of
                      Some types \<Rightarrow> types | None \<Rightarrow> [])
                 (filter (\<lambda>(parser, v). truthy v)
                    (entries (if truthy (js_get (route a) ''bodyParsers'')
                              then js_get (route a) ''bodyParsers'' else JObj []))));
          contentTypes =
            (if tmpContentTypes \<noteq> [] then map JStr tmpContentTypes
             else [js_path (route a) [''openApiService'', ''settings'', ''defaultResponseContentType'']])
      in bind_err
           (if isReferenceObject schema
            then bind_err (componentOfRef g1 schema) (\<lambda>schemaRef.
                   if \<not> truthy schemaRef then Inl (Error ''fail to get schema from path'')
                   else Inr (nonempty (nullish (js_get schemaRef ''required'') (JArr []))))
            else Inr False)
           (\<lambda>required.
              Inr (JObj
                [(''description'', js_get openApiMetas ''description''),
                 (''summary'', js_get openApiMetas ''summary''),
                 (''required'', JBool required),
                 (''content'',
                    JObj (fromEntries
                      (map (\<lambda>contentType. (to_key contentType, JObj [(''schema'', schema)]))
                           contentTypes)))])))"

text \<open>\<open>currentBodyParameters\<close> of \<open>extractParameters\<close>: \<open>{...metas, ...bodyParameters}\<close>.\<close>

definition currentBodyParameters :: "constants \<Rightarrow> string \<Rightarrow> Alias \<Rightarrow> json" where
  "currentBodyParameters K method a =
     (let actionParams = nullish (js_get (actionSchema a) ''params'') (JObj [])
      in JObj (spread (getMetas actionParams) (getParameters K method actionParams True)))"

text \<open>The first statement of \<open>extractParameters\<close>.\<close>

definition pathParametersOf :: "Alias \<Rightarrow> string \<Rightarrow> json list" where
  "pathParametersOf a path =
     (if truthy (js_get (openapi a) ''pathParameters'')
      then map (\<lambda>param. js_set ''in'' (JStr ''path'') param)
               (items_of (js_get (openapi a) ''pathParameters''))
      else extractParamsFromUrl path)"

text \<open>The block \<open>//query\<close> of \<open>extractParameters\<close>.\<close>

definition extractQuery ::
    "constants \<Rightarrow> converter \<Rightarrow> string \<Rightarrow> Alias \<Rightarrow> generator \<Rightarrow> json list \<Rightarrow> error + json list" where
  "extractQuery K conv method a g pathParameters =
     (let actionParams = nullish (js_get (actionSchema a) ''params'') (JObj []);
          excluded = map (\<lambda>params. js_get params ''name'') pathParameters
      in if \<not> truthy (js_get (openapi a) ''queryParameters'')
         then foldM_err (queryParameter K conv g excluded)
                (getParameters K method actionParams False) pathParameters
         else Inr (map (\<lambda>param. js_set ''in'' (JStr ''query'') param)
                     (items_of (js_get (openapi a) ''queryParameters''))))"

text \<open>The block \<open>//body\<close> of \<open>extractParameters\<close>.\<close>

definition extractBody ::
    "constants \<Rightarrow> converter \<Rightarrow> string \<Rightarrow> Alias \<Rightarrow> generator \<Rightarrow> json list \<Rightarrow> error + (json \<times> generator)" where
  "extractBody K conv method a g excluded =
     (let actionParams = nullish (js_get (actionSchema a) ''params'') (JObj []);
          metas = getMetas actionParams;
          openApiMetas = nullish (js_get (JObj metas) ''$$oa'') (JObj [])
      in if truthy (js_get (openapi a) ''requestBody'')
         then Inr (js_get (openapi a) ''requestBody'', g)
         else if \<not> truthy (action a) then Inl (Error ''something is wrong'')
         else
           let bodyParameters = getParameters K method actionParams True
           in if bodyParameters = [] then Inr (JUndefined, g)
              else bind_err (createRequestBodyFromParams K conv (to_key (action a))
                               (currentBodyParameters K method a) excluded g)
                     (\<lambda>(schema, g1).
                        bind_err (ordinaryBody K a openApiMetas schema g1) (\<lambda>body.
                          Inr (body, g1))))"

definition extractParameters ::
    "constants \<Rightarrow> converter \<Rightarrow> string \<Rightarrow> string \<Rightarrow> Alias \<Rightarrow> generator
       \<Rightarrow> error + (parametersExtracted \<times> generator)" where
  "extractParameters K conv method path a g =
     (let pathParameters = pathParametersOf a path;
          excluded = map (\<lambda>params. js_get params ''name'') pathParameters
      in if nullish (alias_type a) (JStr []) \<in> {JStr ''multipart'', JStr ''stream''}
         then
           (if truthy (js_get (openapi a) ''requestBody'')
            then Inr (\<lparr>parameters = pathParameters,
                        requestBody = js_get (openapi a) ''requestBody''\<rparr>, g)
            else bind_err (generateFileUploadBody K conv a excluded g) (\<lambda>(body, g1).
                   Inr (\<lparr>parameters = pathParameters, requestBody = body\<rparr>, g1)))
         else if truthy (js_get (openapi a) ''queryParameters'')
               \<or> truthy (js_get (openapi a) ''requestBody'')
               \<or> (truthy (js_get (actionSchema a) ''params'') \<and> truthy (action a))
         then bind_err (extractQuery K conv method a g pathParameters) (\<lambda>params.
                bind_err (extractBody K conv method a g excluded) (\<lambda>(body, g1).
                  Inr (\<lparr>parameters = params, requestBody = body\<rparr>, g1)))
         else Inr (\<lparr>parameters = pathParameters, requestBody = JUndefined\<rparr>, g))"

section \<open>OpenApiGenerator: generate\<close>

text \<open>\<open>s.indexOf(p)\<close> and \<open>s.indexOf(p, i)\<close>; \<open>None\<close> stands for -1.\<close>

fun indexOf :: "string \<Rightarrow> string \<Rightarrow> nat option" where
  "indexOf p [] = (if p = [] then Some 0 else None)"
| "indexOf p (c # cs) =
     (if take (length p) (c # cs) = p then Some 0 else map_option Suc (indexOf p cs))"

definition indexOf_from :: "string \<Rightarrow> string \<Rightarrow> nat \<Rightarrow> nat option" where
  "indexOf_from p s i = map_option (\<lambda>j. j + i) (indexOf p (drop i s))"

lemma indexOf_Some:
  "indexOf p s = Some i \<Longrightarrow> take (length p) (drop i s) = p \<and> i + length p \<le> length s"
proof (induction s arbitrary: i)
  case Nil
  then show ?case by (auto split: if_splits)
next
  case (Cons c cs)
  show ?case
  proof (cases "take (length p) (c # cs) = p")
    case True
    with Cons.prems have "i = 0" by simp
    moreover have "length p \<le> length (c # cs)"
    proof -
      from True have "length (take (length p) (c # cs)) = length p" by simp
      then show ?thesis by simp
    qed
    ultimately show ?thesis using True by simp
  next
    case False
    with Cons.prems obtain j where j: "indexOf p cs = Some j" "i = Suc j" by auto
    with Cons.IH [of j] show ?thesis by simp
  qed
qed

lemma indexOf_colon:
  assumes "indexOf ''/:'' url = Some i"
  shows "Suc i < length url \<and> url ! Suc i = CHR '':''"
proof -
  from indexOf_Some [OF assms] have t: "take (Suc (Suc 0)) (drop i url) = ''/:''"
    and l: "Suc (Suc i) \<le> length url"
    by simp_all
  from l have "drop i url = url ! i # url ! Suc i # drop (Suc (Suc i)) url"
    by (simp add: Cons_nth_drop_Suc)
  with t have "url ! Suc i = CHR '':''" by simp
  with l show ?thesis by simp
qed

lemma indexOf_from_slash:
  assumes "indexOf_from ''/'' url k = Some e" and "k < length url" and "url ! k \<noteq> CHR ''/''"
  shows "k < e \<and> e < length url"
proof -
  from assms(1) obtain j where j: "indexOf ''/'' (drop k url) = Some j" and e: "e = j + k"
    by (auto simp: indexOf_from_def)
  from indexOf_Some [OF j] have t: "take 1 (drop j (drop k url)) = ''/''"
    and l: "j + 1 \<le> length (drop k url)" by simp_all
  have "j \<noteq> 0"
  proof
    assume "j = 0"
    with t have "take 1 (drop k url) = ''/''" by simp
    moreover have "take 1 (drop k url) = [url ! k]"
      using assms(2) by (simp add: take_Suc_conv_app_nth Cons_nth_drop_Suc [symmetric])
    ultimately show False using assms(3) by simp
  qed
  with e l show ?thesis by simp
qed

text \<open>
  \<open>formatParamUrl\<close> rewrites \<open>/:name\<close> to \<open>/{name}\<close>, one placeholder per call. Every
  call removes one colon, which bounds the recursion.
\<close>

function formatParamUrl :: "string \<Rightarrow> string" where
  "formatParamUrl url =
     (case indexOf ''/:'' url of
        None \<Rightarrow> url
      | Some i \<Rightarrow>
          let start = Suc i
          in (case indexOf_from ''/'' url start of
                None \<Rightarrow> take start url @ ''{'' @ drop (Suc start) url @ ''}''
              | Some end \<Rightarrow>
                  formatParamUrl
                    (take start url @ ''{'' @ take (end - Suc start) (drop (Suc start) url)
                       @ ''}'' @ drop end url)))"
  by pat_completeness auto

termination
proof (relation "measure (\<lambda>url. length (filter (\<lambda>c. c = CHR '':'') url))", goal_cases)
  case 1
  show ?case by simp
next
  case (2 url i start e)
  from indexOf_colon [OF 2(1)] have i: "Suc i < length url" "url ! Suc i = CHR '':''" by simp_all
  with 2 indexOf_from_slash [of url "Suc i" e] have e: "Suc i < e" "e < length url" by simp_all
  have rest: "take (e - Suc (Suc i)) (drop (Suc (Suc i)) url) @ drop e url = drop (Suc (Suc i)) url"
  proof -
    have "e - Suc (Suc i) + Suc (Suc i) = e" using e by arith
    then have "drop e url = drop (e - Suc (Suc i)) (drop (Suc (Suc i)) url)"
      by (simp only: drop_drop)
    then show ?thesis by (simp only: append_take_drop_id)
  qed
  have url: "url = take (Suc i) url @ CHR '':'' # drop (Suc (Suc i)) url"
    using i by (metis id_take_nth_drop)
  have "length (filter (\<lambda>c. c = CHR '':'')
          (take (Suc i) url @ ''{'' @ (take (e - Suc (Suc i)) (drop (Suc (Suc i)) url) @ ''}'' @ drop e url)))
        = length (filter (\<lambda>c. c = CHR '':'') (take (Suc i) url))
          + length (filter (\<lambda>c. c = CHR '':'') (take (e - Suc (Suc i)) (drop (Suc (Suc i)) url) @ drop e url))"
    by simp
  also have "\<dots> < length (filter (\<lambda>c. c = CHR '':'') (take (Suc i) url @ CHR '':'' # drop (Suc (Suc i)) url))"
    by (simp only: rest filter_append filter.simps length_append) simp
  finally show ?case using url 2(2) by simp
qed

text \<open>
  What \<open>generate\<close> takes from outside the sources: the constants, the rule converter,
  \<open>OpenApiMerger.merge\<close> (it returns the merged \<open>openapi\<close> settings of the operation and
  may add to the tag registry it is handed), \<open>normalizePath\<close> (commons.js), and from the
  runtime \<open>String.prototype.replace\<close> with the global pattern \<open>{{k}}\<close> and
  \<open>String.prototype.trim\<close>.
\<close>

record externals =
  constants_of :: constants
  getSchemaObjectFromRule :: converter
  OpenApiMerger_merge :: "(string \<times> json) list \<Rightarrow> Alias \<Rightarrow> pathAction \<Rightarrow> json \<times> (string \<times> json) list"
  normalizePath :: "string \<Rightarrow> string"
  compareFullPath :: "Alias \<Rightarrow> Alias \<Rightarrow> int"
  compareName :: "json \<Rightarrow> json \<Rightarrow> int"
  replace_all :: "string \<Rightarrow> json \<Rightarrow> string \<Rightarrow> string"
  trim :: "string \<Rightarrow> string"

text \<open>
  The state of one \<open>generate\<close> call: the document under construction, the tag registry
  \<open>tagsMap\<close>, the map \<open>cachePathActions\<close>, and the generator instance.
\<close>

record assembly =
  document :: json
  tagsMap :: "(string \<times> json) list"
  cachePathActions :: "(string \<times> json) list"
  gen :: generator

definition addServerToDocument :: "json \<Rightarrow> json \<Rightarrow> json" where
  "addServerToDocument doc server =
     (let doc1 = (if \<not> truthy (js_get doc ''servers'') then js_set ''servers'' (JArr []) doc else doc)
      in if \<not> list_ex (\<lambda>srv. strict_eq (js_get srv ''url'') (js_get server ''url''))
                 (items_of (js_get doc1 ''servers''))
         then js_set ''servers'' (JArr (items_of (js_get doc1 ''servers'') @ [server])) doc1
         else doc1)"

text \<open>\<open>Array.from(new Set(xs))\<close>: the first occurrence of every value, in order.\<close>

definition uniq :: "'a list \<Rightarrow> 'a list" where
  "uniq xs = fold (\<lambda>x acc. if x \<in> set acc then acc else acc @ [x]) xs []"

definition handleTags :: "json \<Rightarrow> (string \<times> json) list \<Rightarrow> json \<Rightarrow> json \<times> json list" where
  "handleTags doc tags_map tags =
     (let uniqTags = uniq (items_of tags);
          doc1 = (if \<not> truthy (js_get doc ''tags'') then js_set ''tags'' (JArr []) doc else doc)
      in (fold (\<lambda>tag d.
                  let tagObject = (case tag of JStr t \<Rightarrow> (case map_of tags_map t of
                                                             Some obj \<Rightarrow> obj | None \<Rightarrow> JUndefined)
                                   | _ \<Rightarrow> JUndefined)
                  in if \<not> list_ex (\<lambda>t. strict_eq (js_get t ''name'') tag) (items_of (js_get d ''tags''))
                        \<and> truthy tagObject
                     then js_set ''tags'' (JArr (items_of (js_get d ''tags'') @ [tagObject])) d
                     else d)
               uniqTags doc1,
          uniqTags))"

text \<open>\<open>alias.route.apiService.settings?.openapi?.server\<close>\<close>

definition serverOf :: "Alias \<Rightarrow> json" where
  "serverOf a = js_path (route a) [''apiService'', ''settings'', ''openapi'', ''server'']"

text \<open>
  The callback of \<open>alias.getPaths().forEach\<close>: one method of one route. \<open>servers\<close> of an
  operation is an array by type; \<open>find\<close> of another value with a length throws.
\<close>

definition pathActionStep ::
    "externals \<Rightarrow> Alias \<Rightarrow> string \<Rightarrow> pathAction \<Rightarrow> json \<times> assembly \<Rightarrow> error + (json \<times> assembly)" where
  "pathActionStep E a openapiPath pa st =
     (case st of (currentPath, S) \<Rightarrow>
      let K = constants_of E;
          m = pa_method pa;
          cacheKeyName = openapiPath @ ''.'' @ m;
          currentMethod = js_get currentPath m;
          server = serverOf a
      in if truthy currentMethod
         then
           (let actionFromCache =
                  (case map_of (cachePathActions S) cacheKeyName of
                     Some name \<Rightarrow> name | None \<Rightarrow> JUndefined);
                skip = Inr (currentPath,
                      S\<lparr>gen := warn (AlreadyRegister m openapiPath
                                       (to_key (nullish actionFromCache (JStr ''<unamedAction>''))))
                                  (gen S)\<rparr>)
            in if nonempty (js_get currentMethod ''servers'') \<and> truthy (js_get server ''url'')
               then (case js_get currentMethod ''servers'' of
                       JArr servers \<Rightarrow>
                         if \<not> list_ex (\<lambda>srv. strict_eq (js_get srv ''url'') (js_get server ''url''))
                                  servers
                         then Inr (js_set m (js_set ''servers'' (JArr (servers @ [server]))
                                               currentMethod) currentPath,
                                   S\<lparr>document := addServerToDocument (document S) server\<rparr>)
                         else skip
                     | _ \<Rightarrow> Inl TypeError)
               else skip)
         else
           (case OpenApiMerger_merge E (tagsMap S) a pa of (openApi, tags_map) \<Rightarrow>
            bind_err (extractParameters K (getSchemaObjectFromRule E) m openapiPath a (gen S))
              (\<lambda>(extracted, g1).
               if openApi = JUndefined \<or> openApi = JNull then Inl TypeError
               else
               bind_err (cleanComponents (js_get openApi ''components'')) (\<lambda>cleaned.
                 let g2 = g1\<lparr>components := mergeComponents (components g1) cleaned\<rparr>;
                     tagged = handleTags (document S) tags_map (js_get openApi ''tags'');
                     openApiMethod = JObj
                       [(''summary'', if \<not> isJokerAlias a then js_get openApi ''summary'' else JUndefined),
                        (''description'',
                           if \<not> isJokerAlias a then js_get openApi ''description'' else JUndefined),
                        (''operationId'', js_get openApi ''operationId''),
                        (''servers'', JArr (if truthy server then [server] else [])),
                        (''externalDocs'', js_get openApi ''externalDocs''),
                        (''security'', js_get openApi ''security''),
                        (''tags'', JArr (snd tagged)),
                        (''parameters'', JArr (parameters extracted)),
                        (''requestBody'', requestBody extracted),
                        (''responses'', js_get openApi ''responses'')];
                     doc1 = (if truthy server then addServerToDocument (fst tagged) server
                             else fst tagged);
                     templateVariables =
                       [(''summary'', nullish (js_get openApi ''summary'') (JStr [])),
                        (''action'', nullish (action a) (JStr (UNRESOLVED_ACTION_NAME K))),
                        (''autoAlias'', if truthy (js_get (route a) ''autoAliases'')
                                        then JStr ''[autoAlias]'' else JStr [])];
                     render = (\<lambda>t. JStr (trim E (fold (\<lambda>(k, v) previous. replace_all E k v previous)
                                                     templateVariables t)));
                     operation =
                       (case summaryTemplate a of
                          TplString t \<Rightarrow> js_set ''summary'' (render t) openApiMethod
                        | TplUndefined \<Rightarrow>
                            js_set ''summary'' (render (DEFAULT_SUMMARY_TEMPLATE K)) openApiMethod
                        | TplFunction f \<Rightarrow>
                            js_set ''summary''
                              (f (snd (templateVariables ! 0)) (snd (templateVariables ! 1))
                                 (snd (templateVariables ! 2))) openApiMethod
                        | TplOther \<Rightarrow> openApiMethod)
                 in Inr (js_set m operation currentPath,
                         S\<lparr>document := doc1,
                           tagsMap := tags_map,
                           cachePathActions :=
                             put cacheKeyName (js_get (pa_action pa) ''name'') (cachePathActions S),
                           gen := g2\<rparr>)))))"

text \<open>The callback of \<open>aliases.forEach\<close>: one route.\<close>

definition aliasStep :: "externals \<Rightarrow> Alias \<Rightarrow> assembly \<Rightarrow> error + assembly" where
  "aliasStep E a S =
     (let S0 = (if \<not> truthy (js_get (document S) ''paths'')
                then S\<lparr>document := js_set ''paths'' (JObj []) (document S)\<rparr> else S);
          openapiPath = formatParamUrl (normalizePath E (fullPath a));
          currentPath0 = nullish (js_path (document S0) [''paths'', openapiPath]) (JObj []);
          currentPath1 =
            (if isJokerAlias a
             then js_set ''summary'' (js_path (actionSchema a) [''openapi'', ''summary''])
                    (js_set ''description'' (js_path (actionSchema a) [''openapi'', ''description''])
                       currentPath0)
             else currentPath0)
      in bind_err (foldM_err (pathActionStep E a openapiPath) (getPaths a) (currentPath1, S0))
           (\<lambda>(currentPath, S1).
              Inr (S1\<lparr>document :=
                        js_set ''paths''
                          (js_set openapiPath currentPath (js_get (document S1) ''paths''))
                          (document S1)\<rparr>)))"

text \<open>
  \<open>xs.sort(compare)\<close> with a consistent comparator (negative: the first argument goes
  first; zero: the two keep their order): the stable sort, written as insertion from the
  right. \<open>getAlphabeticSorter\<close> (commons.js) is missing; the comparators it returns for
  \<open>fullPath\<close> and for \<open>name\<close> are the fields \<open>compareFullPath\<close> and \<open>compareName\<close>.
\<close>

fun insert_sorted :: "('a \<Rightarrow> 'a \<Rightarrow> int) \<Rightarrow> 'a \<Rightarrow> 'a list \<Rightarrow> 'a list" where
  "insert_sorted compare x [] = [x]"
| "insert_sorted compare x (y # ys) =
     (if compare x y \<le> 0 then x # y # ys else y # insert_sorted compare x ys)"

definition array_sort :: "('a \<Rightarrow> 'a \<Rightarrow> int) \<Rightarrow> 'a list \<Rightarrow> 'a list" where
  "array_sort compare xs = foldr (insert_sorted compare) xs []"

text \<open>
  The arrays of routes that callers hold, by reference. \<open>generate\<close> gets the reference
  \<open>aliasesRef\<close> and sorts the array behind it in place (\<open>aliases.sort(...)\<close>); whoever holds
  the same reference sees the sorted array afterwards, whether or not \<open>generate\<close> throws
  later.
\<close>

type_synonym heap = "nat \<rightharpoonup> Alias list"

text \<open>
  \<open>generate\<close> returns the document or throws. \<open>base\<close> is \<open>this.document\<close>, \<open>g\<close> the
  generator instance before the call; \<open>generatorAfter\<close> is the generator instance after it
  (\<open>this.components\<close> persists between calls, and the warnings logged so far).
\<close>

record generated =
  returned :: json
  generatorAfter :: generator

definition seedDocument :: "json \<Rightarrow> string \<Rightarrow> error + json" where
  "seedDocument base openApiVersion =
     (if base = JUndefined \<or> base = JNull then Inl TypeError
      else
        let base1 = (if truthy (js_get base ''openapi'') then JObj (del ''openapi'' (entries base))
                     else base)
        in bind_err (cleanComponents (js_get base1 ''components'')) (\<lambda>cleaned.
             let doc0 = js_set ''components'' (components_json cleaned)
                          (js_set ''tags'' (JArr [])
                            (js_set ''servers'' (JArr [])
                              (JObj (spread [(''openapi'', JStr (openApiVersion @ ''.0''))]
                                       (Object_entries base1)))))
             in Inr (if truthy (js_get doc0 ''responses'')
                     then JObj (del ''responses'' (entries doc0)) else doc0)))"

text \<open>
  The end of \<open>generate\<close>. \<open>document.components\<close> is what \<open>cleanComponents\<close> returned at the
  start, an object of objects, read back as sections.
\<close>

definition finishDocument :: "externals \<Rightarrow> assembly \<Rightarrow> error + json" where
  "finishDocument E S =
     (let doc1 = js_set ''tags''
                   (JArr (array_sort (compareName E) (items_of (js_get (document S) ''tags''))))
                   (document S);
          doc2 = js_set ''components''
                   (components_json
                      (mergeComponents (components_of_json (js_get doc1 ''components''))
                         (components (gen S))))
                   doc1
      in removeExtensions (EOAExtensions_values (constants_of E)) doc2)"

definition generate ::
    "externals \<Rightarrow> json \<Rightarrow> string \<Rightarrow> nat \<Rightarrow> generator \<Rightarrow> heap \<Rightarrow> (error + generated) \<times> heap" where
  "generate E base openApiVersion aliasesRef g H =
     (let g0 = (if truthy (js_get base ''openapi'') then warn ManualVersion g else g)
      in case seedDocument base openApiVersion of
           Inl e \<Rightarrow> (Inl e, H)
         | Inr doc \<Rightarrow>
             (case H aliasesRef of
                None \<Rightarrow> (Inl TypeError, H)
              | Some aliases \<Rightarrow>
                  let sorted = array_sort (compareFullPath E) aliases
                  in (bind_err
                        (foldM_err (aliasStep E) sorted
                           \<lparr>document = doc, tagsMap = [], cachePathActions = [], gen = g0\<rparr>)
                        (\<lambda>S. bind_err (finishDocument E S)
                                (\<lambda>d. Inr \<lparr>returned = d, generatorAfter = gen S\<rparr>)),
                      H(aliasesRef \<mapsto> sorted))))"

section \<open>Notions used in the properties\<close>

text \<open>\<open>Object.keys(document.paths)\<close>: the path keys of a document, in their order.\<close>

definition pathKeys :: "json \<Rightarrow> string list" where
  "pathKeys d = map fst (entries (js_get d ''paths''))"


text \<open>
  \<open>docInv C d\<close>: the document \<open>d\<close> is an object, each of its properties is there once, and
  its \<open>components\<close> are \<open>C\<close>.
\<close>

definition docInv :: "json \<Rightarrow> json \<Rightarrow> bool" where
  "docInv C d = (\<exists>kvs. d = JObj kvs \<and> distinct (map fst kvs) \<and> map_of kvs ''components'' = Some C)"



section \<open>Sample inputs\<close>

text \<open>
  Concrete values for what lies outside the sources, used where a property is evaluated
  on an example: constants of the expected shape, a converter that treats every rule as
  an unconstrained string rule (the fragment of the string mapper, with the marker of
  \<open>getSchemaObjectFromRule\<close> when the rule is optional), a merger that contributes no
  settings, and the identity for \<open>normalizePath\<close>, \<open>replace\<close> and \<open>trim\<close>.

  Modelled from the spec: \<open>getAlphabeticSorter\<close> (commons.js) is missing. Per the spec the
  routes are sorted "by full path, lexicographically ascending" and the tags
  "alphabetically by name": the two comparators order by that property, ascending.
\<close>

definition sampleConstants :: constants where
  "sampleConstants =
     \<lparr>ext_optional = ''x-fastest-optional'',
      ext_description = ''x-fastest-description'',
      ext_summary = ''x-fastest-summary'',
      ext_deprecated = ''x-fastest-deprecated'',
      ALLOWING_BODY_METHODS = [''put'', ''post'', ''patch''],
      BODY_PARSERS_CONTENT_TYPE =
        [(''json'', [''application/json'']),
         (''urlencoded'', [''application/x-www-form-urlencoded'']),
         (''multipart'', [''multipart/form-data'']),
         (''stream'', [''application/octet-stream''])],
      DEFAULT_CONTENT_TYPE = ''application/json'',
      DEFAULT_MULTI_PART_FIELD_NAME = ''file'',
      DEFAULT_SUMMARY_TEMPLATE = ''{{summary}} ({{action}}){{autoAlias}}'',
      UNRESOLVED_ACTION_NAME = ''unknown-action''\<rparr>"

definition sampleConverter :: converter where
  "sampleConverter rule parentProperties parentSchema =
     Inr (JObj ([(''default'', JUndefined), (''type'', JStr ''string''),
                 (''maxLength'', JUndefined), (''minLength'', JUndefined),
                 (''enum'', JUndefined)]
                @ (if truthy (js_get rule ''optional'')
                   then [(''x-fastest-optional'', JBool True)] else [])))"

definition sampleExternals :: externals where
  "sampleExternals =
     \<lparr>constants_of = sampleConstants,
      getSchemaObjectFromRule = sampleConverter,
      OpenApiMerger_merge = (\<lambda>tags_map a pa. (JObj [], tags_map)),
      normalizePath = (\<lambda>p. p),
      compareFullPath = (\<lambda>a b. if fullPath a < fullPath b then - 1
                               else if fullPath b < fullPath a then 1 else 0),
      compareName = (\<lambda>a b. if to_key (js_get a ''name'') < to_key (js_get b ''name'') then - 1
                           else if to_key (js_get b ''name'') < to_key (js_get a ''name'') then 1
                           else 0),
      replace_all = (\<lambda>k v s. s),
      trim = (\<lambda>s. s)\<rparr>"

text \<open>The generator instance as the constructor leaves it.\<close>

definition newGenerator :: generator where
  "newGenerator =
     \<lparr>components =
        [(''schemas'', []), (''responses'', []), (''parameters'', []), (''examples'', []),
         (''requestBodies'', []), (''headers'', []), (''securitySchemes'', []), (''links'', []),
         (''callbacks'', []), (''pathItems'', [])],
      warnings = []\<rparr>"

text \<open>A route with one method, bound to an action with the given rule schema.\<close>

definition sampleAlias :: "string \<Rightarrow> string \<Rightarrow> string \<Rightarrow> json \<Rightarrow> Alias" where
  "sampleAlias m path name params =
     \<lparr>fullPath = path, alias_type = JUndefined, action = JStr name,
      actionSchema = JObj [(''params'', params)], openapi = JUndefined,
      busboyConfig = JUndefined,
      route = JObj [(''apiService'', JObj [(''settings'', JObj [])])],
      summaryTemplate = TplUndefined, isJokerAlias = False,
      getPaths = [\<lparr>pa_method = m, pa_action = JObj [(''name'', JStr name)]\<rparr>]\<rparr>"

text \<open>
  Two routes: an action \<open>a\<close> with a field named \<open>properties\<close>, and an action whose
  name is \<open>a/properties\<close>.
\<close>

definition fieldNamedProperties :: Alias where
  "fieldNamedProperties = sampleAlias ''post'' ''/a'' ''a''
     (JObj [(''properties'', JObj [(''type'', JStr ''string'')])])"

definition slashInName :: Alias where
  "slashInName = sampleAlias ''post'' ''/b'' ''a/properties''
     (JObj [(''foo'', JObj [(''type'', JStr ''string'')])])"

text \<open>A multipart upload route with the given rule schema and \<open>openapi\<close> overrides.\<close>

definition uploadAlias :: "json \<Rightarrow> json \<Rightarrow> Alias" where
  "uploadAlias params oa =
     (sampleAlias ''post'' ''/files'' ''files.upload'' params)
       \<lparr>alias_type := JStr ''multipart'', openapi := oa\<rparr>"

text \<open>Two routes, registered in descending order of path.\<close>

definition unsortedRoutes :: "Alias list" where
  "unsortedRoutes =
     [sampleAlias ''get'' ''/users'' ''users.list'' (JObj []),
      sampleAlias ''get'' ''/articles'' ''articles.list'' (JObj [])]"


definition storeWithA :: generator where
  "storeWithA =
     \<lparr>components = [(''schemas'', [(''A.b'', JObj [(''type'', JStr ''object'')]),
                                    (''A'', JObj [(''type'', JStr ''object'')])])],
      warnings = []\<rparr>"

text \<open>A base document that declares the schema \<open>A\<close> as a string.\<close>

definition documentWithA :: json where
  "documentWithA =
     JObj [(''components'', JObj [(''schemas'', JObj [(''A'', JObj [(''type'', JStr ''string'')])])])]"

text \<open>
  Routes for \<open>GET /users\<close>, a service that declares a server, the state of \<open>generate\<close>
  before the first route, and a path item whose \<open>get\<close> operation lists one server.
\<close>

definition listUsers :: Alias where
  "listUsers = sampleAlias ''get'' ''/users'' ''users.list'' (JObj [])"

definition searchUsers :: Alias where
  "searchUsers = sampleAlias ''get'' ''/users'' ''users.search''
     (JObj [(''q'', JObj [(''type'', JStr ''string'')])])"

definition withServer :: "string \<Rightarrow> Alias \<Rightarrow> Alias" where
  "withServer url a =
     a\<lparr>route := JObj [(''apiService'', JObj [(''settings'',
            JObj [(''openapi'', JObj [(''server'', JObj [(''url'', JStr url)])])])])]\<rparr>"

definition emptyAssembly :: assembly where
  "emptyAssembly =
     \<lparr>document = JObj [(''openapi'', JStr ''3.1.0''), (''servers'', JArr []), (''tags'', JArr []),
                       (''components'', JObj [])],
      tagsMap = [], cachePathActions = [], gen = newGenerator\<rparr>"

definition servedPath :: json where
  "servedPath = JObj [(''get'', JObj [(''operationId'', JStr ''users.list''),
                                      (''servers'', JArr [JObj [(''url'', JStr ''http://a'')]])])]"



section \<open>Properties\<close>

lemma put_keys: "fst ` set (put k v kvs) = insert k (fst ` set kvs)"
  by (induction kvs) force+

lemma map_of_put: "map_of (put k v kvs) = (map_of kvs)(k \<mapsto> v)"
  by (induction kvs) (auto simp: fun_eq_iff)

lemma marker_free_put:
  "marker_free_entries exts kvs \<Longrightarrow> k \<notin> set exts \<Longrightarrow> marker_free exts v
   \<Longrightarrow> marker_free_entries exts (put k v kvs)"
  by (induction kvs) auto

lemma marker_free_fold_put:
  "marker_free_entries exts es \<Longrightarrow> marker_free_entries exts acc
   \<Longrightarrow> marker_free_entries exts (fold (\<lambda>(k, v) acc. put k v acc) es acc)"
proof (induction es arbitrary: acc)
  case Nil
  then show ?case by simp
next
  case (Cons e es)
  obtain k v where e: "e = (k, v)" by (cases e)
  with Cons.prems have "marker_free_entries exts (put k v acc)"
    by (simp add: marker_free_put)
  with Cons e show ?case by simp
qed

lemma marker_free_fromEntries:
  "marker_free_entries exts es \<Longrightarrow> marker_free_entries exts (fromEntries es)"
  unfolding fromEntries_def by (rule marker_free_fold_put) simp_all

lemma keys_fold_del: "fst ` set (fold del exts kvs) = fst ` set kvs - set exts"
proof (induction exts arbitrary: kvs)
  case Nil
  then show ?case by simp
next
  case (Cons x exts)
  have "fst ` set (del x kvs) = fst ` set kvs - {x}"
    by (force simp: del_def)
  with Cons [of "del x kvs"] show ?case by auto
qed

lemma removeExtensions_marker_free:
  "(removeExtensions exts j = Inr j' \<longrightarrow> marker_free exts j')"
  "(removeExtensions_items exts xs = Inr ys \<longrightarrow> marker_free_items exts ys)"
  "(removeExtensions_entries exts kvs = Inr es \<longrightarrow>
      fst ` set es = fst ` set kvs \<and>
      (fst ` set kvs \<inter> set exts = {} \<longrightarrow> marker_free_entries exts es))"
proof (induction exts j and exts xs and exts kvs arbitrary: j' and ys and es
    rule: removeExtensions_removeExtensions_items_removeExtensions_entries.induct)
  case (1 exts xs)
  then show ?case by (auto split: sum.splits)
next
  case (2 exts kvs)
  show ?case
  proof
    assume a: "removeExtensions exts (JObj kvs) = Inr j'"
    then obtain es where es: "removeExtensions_entries exts (fold del exts kvs) = Inr es"
      and j': "j' = JObj (fromEntries es)"
      by (auto split: sum.splits)
    have "fst ` set (fold del exts kvs) \<inter> set exts = {}"
      by (auto simp: keys_fold_del)
    with "2.IH" es have "marker_free_entries exts es" by blast
    then show "marker_free exts j'" by (simp add: j' marker_free_fromEntries)
  qed
next
  case (9 exts x xs)
  show ?case
  proof
    assume "removeExtensions_items exts (x # xs) = Inr ys"
    then obtain y ys' where "removeExtensions exts x = Inr y"
      "removeExtensions_items exts xs = Inr ys'" "ys = y # ys'"
      by (auto split: sum.splits)
    with "9.IH" show "marker_free_items exts ys" by simp
  qed
next
  case (11 exts k v kvs)
  show ?case
  proof
    assume "removeExtensions_entries exts ((k, v) # kvs) = Inr es"
    then obtain y es' where y: "removeExtensions exts v = Inr y"
      and es': "removeExtensions_entries exts kvs = Inr es'" and es: "es = (k, y) # es'"
      by (auto split: sum.splits)
    from "11.IH"(1) y have 1: "marker_free exts y" by simp
    from "11.IH"(2) [OF y] es' have 2: "fst ` set es' = fst ` set kvs"
      and 3: "fst ` set kvs \<inter> set exts = {} \<longrightarrow> marker_free_entries exts es'"
      by simp_all
    show "fst ` set es = fst ` set ((k, v) # kvs) \<and>
      (fst ` set ((k, v) # kvs) \<inter> set exts = {} \<longrightarrow> marker_free_entries exts es)"
      using 1 2 3 es by auto
  qed
qed auto


section \<open>Registrations touch only derived names\<close>

text \<open>
  \<open>frame n g g'\<close>: between \<open>g\<close> and \<open>g'\<close>, only schemas whose name starts with \<open>n\<close> were
  written, and only overwrite warnings for such names were logged. Every name registered
  below \<open>name\<close> is \<open>name\<close> followed by a dot and more.
\<close>

lemma bind_err_Inr: "(bind_err m f = Inr y) = (\<exists>x. m = Inr x \<and> f x = Inr y)"
  by (cases m) auto

definition frame :: "string \<Rightarrow> generator \<Rightarrow> generator \<Rightarrow> bool" where
  "frame n g g' = (\<forall>m. \<not> prefix n m \<longrightarrow>
       schemas g' m = schemas g m
     \<and> count_list (warnings g') (SchemaOverwrite m) = count_list (warnings g) (SchemaOverwrite m))"

lemma frame_refl: "frame n g g"
  by (simp add: frame_def)

lemma frame_trans: "frame n g g1 \<Longrightarrow> frame n g1 g2 \<Longrightarrow> frame n g g2"
  by (simp add: frame_def)

lemma frame_mono: "prefix p q \<Longrightarrow> frame q g g' \<Longrightarrow> frame p g g'"
  unfolding frame_def using prefix_order.trans by blast

lemma schemas_init:
  "schemas (if map_of (components g) ''schemas'' = None
            then g\<lparr>components := put ''schemas'' [] (components g)\<rparr> else g) = schemas g"
  by (auto simp: schemas_def section_of_def map_of_put fun_eq_iff)

lemma schemas_storeComponent:
  "schemas (storeComponent name component g) = (schemas g)(name \<mapsto> component)"
  by (simp add: schemas_def storeComponent_def section_of_def map_of_put fun_eq_iff)

lemma schemas_warn: "schemas (warn w g) = schemas g"
  by (simp add: schemas_def warn_def fun_eq_iff)

lemma warnings_warn: "warnings (warn w g) = warnings g @ [w]"
  by (simp add: warn_def)

lemma warnings_storeComponent: "warnings (storeComponent name component g) = warnings g"
  by (simp add: storeComponent_def)

lemma createSchemaComponentFromObject_unfold:
  "createSchemaComponentFromObject K name obj d g = Inr (ref, g') \<longleftrightarrow>
     (\<exists>required properties g1.
        createProperties K name obj
          (if map_of (components g) ''schemas'' = None
           then g\<lparr>components := put ''schemas'' [] (components g)\<rparr> else g)
          = Inr (required, properties, g1)
      \<and> ref = JObj [(''$ref'', JStr (''#/components/schemas/'' @ name))]
      \<and> g' = storeComponent name
                (JObj [(''type'', JStr ''object''),
                       (''properties'', JObj (fromEntries properties)),
                       (''required'', if required \<noteq> [] then JArr (map JStr required) else JUndefined),
                       (''default'', d)])
                (if registered g1 name then warn (SchemaOverwrite name) g1 else g1))"
proof (cases "createProperties K name obj
          (if map_of (components g) ''schemas'' = None
           then g\<lparr>components := put ''schemas'' [] (components g)\<rparr> else g)")
  case (Inl e)
  then show ?thesis
    by (subst createSchemaComponentFromObject.simps) (simp add: Let_def)
next
  case (Inr x)
  obtain rq ps g1 where x: "x = (rq, ps, g1)" by (cases x) auto
  have "createSchemaComponentFromObject K name obj d g =
      Inr (JObj [(''$ref'', JStr (''#/components/schemas/'' @ name))],
           storeComponent name
                (JObj [(''type'', JStr ''object''),
                       (''properties'', JObj (fromEntries ps)),
                       (''required'', if rq \<noteq> [] then JArr (map JStr rq) else JUndefined),
                       (''default'', d)])
                (if registered g1 name then warn (SchemaOverwrite name) g1 else g1))"
    by (subst createSchemaComponentFromObject.simps)
       (simp add: Let_def Inr x)
  with Inr x show ?thesis by auto
qed

lemma create_frame:
  "\<forall>r g'. createSchemaComponentFromObject K n obj d g = Inr (r, g') \<longrightarrow> frame n g g'"
  "\<forall>rq ps g'. createProperties K n obj g = Inr (rq, ps, g') \<longrightarrow> frame (n @ ''.'') g g'"
  "\<forall>r g'. createSchemaPartFromRule K n rule g = Inr (r, g') \<longrightarrow> frame n g g'"
  "\<forall>r i' g'. createMulti K n props rule acc i g = Inr (r, i', g') \<longrightarrow> frame n g g'"
  "\<forall>ys i' g'. createMembers K n xs i g = Inr (ys, i', g') \<longrightarrow> frame n g g'"
proof (induction K n obj d g and K n obj g and K n rule g and K n props rule acc i g and K n xs i g
    rule: createSchemaComponentFromObject_createProperties_createSchemaPartFromRule_createMulti_createMembers.induct)
  case (1 K n obj d g)
  show ?case
  proof (intro allI impI)
    fix r g'
    assume a: "createSchemaComponentFromObject K n obj d g = Inr (r, g')"
    then obtain rq ps g1 c where p: "createProperties K n obj
          (if map_of (components g) ''schemas'' = None
           then g\<lparr>components := put ''schemas'' [] (components g)\<rparr> else g) = Inr (rq, ps, g1)"
      and g': "g' = storeComponent n c (if registered g1 n then warn (SchemaOverwrite n) g1 else g1)"
      unfolding createSchemaComponentFromObject_unfold by blast
    from "1.IH" [OF refl] p have "frame (n @ ''.'') (if map_of (components g) ''schemas'' = None
           then g\<lparr>components := put ''schemas'' [] (components g)\<rparr> else g) g1" by blast
    then have f1: "frame n (if map_of (components g) ''schemas'' = None
           then g\<lparr>components := put ''schemas'' [] (components g)\<rparr> else g) g1"
      by (rule frame_mono [rotated]) simp
    have f0: "frame n g (if map_of (components g) ''schemas'' = None
           then g\<lparr>components := put ''schemas'' [] (components g)\<rparr> else g)"
      by (simp add: frame_def schemas_init)
    have f2: "frame n g1 g'"
      unfolding frame_def g'
      by (auto simp: schemas_storeComponent schemas_warn warnings_storeComponent warnings_warn)
    from f0 f1 f2 show "frame n g g'" by (blast intro: frame_trans)
  qed
next
  case (2 K n g)
  show ?case by (simp add: frame_refl)
next
  case (3 K n f rule rest g)
  show ?case
  proof (intro allI impI)
    fix rq ps g'
    assume a: "createProperties K n ((f, rule) # rest) g = Inr (rq, ps, g')"
    then have nn: "\<not> (rule = JUndefined \<or> rule = JNull)" by (auto split: if_splits)
    with a obtain part g1 rq' ps' where
      1: "createSchemaPartFromRule K (n @ ''.'' @ f) rule g = Inr (part, g1)" and
      2: "createProperties K n rest g1 = Inr (rq', ps', g')"
      by (auto simp: Let_def bind_err_Inr)
    from "3.IH"(1) [OF nn refl refl] 1 have "frame (n @ ''.'' @ f) g g1" by blast
    then have "frame (n @ ''.'') g g1" by (rule frame_mono [rotated]) simp
    moreover from "3.IH"(2) [OF nn refl refl 1 refl] 2 have "frame (n @ ''.'') g1 g'" by blast
    ultimately show "frame (n @ ''.'') g g'" by (rule frame_trans)
  qed
next
  case (4 K n rule g)
  show ?case
  proof (intro allI impI)
    fix r g'
    assume a: "createSchemaPartFromRule K n rule g = Inr (r, g')"
    then have nn: "\<not> (rule = JUndefined \<or> rule = JNull)"
      by (subst (asm) createSchemaPartFromRule.simps) (auto split: if_splits)
    consider (obj) "js_get rule ''type'' = JStr ''object'' \<and> truthy (js_get rule ''properties'')"
      | (arr) "\<not> (js_get rule ''type'' = JStr ''object'' \<and> truthy (js_get rule ''properties''))"
          "js_get rule ''type'' = JStr ''array'' \<and> truthy (js_get rule ''items'')"
      | (multi) "\<not> (js_get rule ''type'' = JStr ''object'' \<and> truthy (js_get rule ''properties''))"
          "\<not> (js_get rule ''type'' = JStr ''array'' \<and> truthy (js_get rule ''items''))"
          "list_ex (\<lambda>property. truthy (js_get rule property)) multiOAProperties"
      | (plain) "\<not> (js_get rule ''type'' = JStr ''object'' \<and> truthy (js_get rule ''properties''))"
          "\<not> (js_get rule ''type'' = JStr ''array'' \<and> truthy (js_get rule ''items''))"
          "\<not> list_ex (\<lambda>property. truthy (js_get rule property)) multiOAProperties"
      by blast
    then show "frame n g g'"
    proof cases
      case obj
      with a nn obtain ref where "createSchemaComponentFromObject K n
          (entries (js_get rule ''properties'')) (js_get rule ''default'') g = Inr (ref, g')"
        by (subst (asm) createSchemaPartFromRule.simps) (auto simp: Let_def bind_err_Inr)
      with "4.IH"(1) [OF nn refl obj] show ?thesis by blast
    next
      case arr
      with a nn obtain part where
        "createSchemaPartFromRule K n (js_get rule ''items'') g = Inr (part, g')"
        by (subst (asm) createSchemaPartFromRule.simps) (auto simp: Let_def bind_err_Inr)
      with "4.IH"(2) [OF nn refl arr] show ?thesis by blast
    next
      case multi
      with a nn obtain rule2 i where "createMulti K n multiOAProperties rule
          (js_set ''deprecated'' (js_get rule (ext_deprecated K))
            (js_set ''title'' (js_get rule (ext_summary K))
              (js_set ''description'' (js_get rule (ext_description K)) rule))) 0 g
          = Inr (rule2, i, g')"
        by (subst (asm) createSchemaPartFromRule.simps) (auto simp: Let_def bind_err_Inr)
      with "4.IH"(3) [OF nn refl multi] show ?thesis by blast
    next
      case plain
      with a nn have "g' = g"
        by (subst (asm) createSchemaPartFromRule.simps) (auto simp: Let_def)
      then show ?thesis by (simp add: frame_refl)
    qed
  qed
next
  case (5 K n rule acc i g)
  show ?case by (simp add: frame_refl)
next
  case (6 K n p ps rule acc i g)
  show ?case
  proof (intro allI impI)
    fix r i' g'
    assume a: "createMulti K n (p # ps) rule acc i g = Inr (r, i', g')"
    show "frame n g g'"
    proof (cases "truthy (js_get rule p)")
      case False
      with a "6.IH"(1) show ?thesis by simp
    next
      case True
      with a obtain members i1 g1 where
        1: "createMembers K n (items_of (js_get rule p)) i g = Inr (members, i1, g1)" and
        2: "createMulti K n ps rule (js_set p (JArr members) acc) i1 g1 = Inr (r, i', g')"
        by (auto simp: bind_err_Inr)
      from True have t: "\<not> \<not> truthy (js_get rule p)" by simp
      from "6.IH"(2) [OF t] 1 have "frame n g g1" by blast
      moreover from "6.IH"(3) [OF t 1 refl refl] 2 have "frame n g1 g'" by blast
      ultimately show ?thesis by (rule frame_trans)
    qed
  qed
next
  case (7 K n i g)
  show ?case by (simp add: frame_refl)
next
  case (8 K n schema rest i g)
  show ?case
  proof (intro allI impI)
    fix ys i' g'
    assume a: "createMembers K n (schema # rest) i g = Inr (ys, i', g')"
    then have nn: "\<not> (schema = JUndefined \<or> schema = JNull)" by (auto split: if_splits)
    show "frame n g g'"
    proof (cases "js_get schema ''type'' \<noteq> JStr ''object''")
      case True
      with a nn obtain members where "createMembers K n rest i g = Inr (members, i', g')"
        by (auto simp: bind_err_Inr)
      with "8.IH"(1) [OF nn True] show ?thesis by blast
    next
      case False
      with a nn obtain part g1 members where
        1: "createSchemaPartFromRule K (n @ ''.'' @ show_nat i) schema g = Inr (part, g1)" and
        2: "createMembers K n rest (Suc i) g1 = Inr (members, i', g')"
        by (auto simp: bind_err_Inr)
      from "8.IH"(2) [OF nn False] 1 have "frame (n @ ''.'' @ show_nat i) g g1" by blast
      then have "frame n g g1" by (rule frame_mono [rotated]) simp
      moreover from "8.IH"(3) [OF nn False 1 refl] 2 have "frame n g1 g'" by blast
      ultimately show ?thesis by (rule frame_trans)
    qed
  qed
qed


lemma createProperties_fields:
  "createProperties K n obj g = Inr (rq, ps, g') \<Longrightarrow>
     rq = requiredFields K obj \<and> map fst ps = map fst obj"
proof (induction obj arbitrary: g rq ps)
  case Nil
  then show ?case by (simp add: requiredFields_def)
next
  case (Cons e obj)
  obtain f rule where e: "e = (f, rule)" by (cases e)
  from Cons.prems e have nn: "\<not> (rule = JUndefined \<or> rule = JNull)" by (auto split: if_splits)
  with Cons.prems e obtain part g1 rq' ps' where
    2: "createProperties K n obj g1 = Inr (rq', ps', g')" and
    rq: "rq = (if js_get rule (ext_optional K) \<noteq> JBool True then [f] else []) @ rq'" and
    ps: "ps = (f, part) # ps'"
    by (auto simp: Let_def bind_err_Inr)
  from Cons.IH [OF 2] rq ps e show ?case by (simp add: requiredFields_def)
qed

lemma register_component_aux:
  assumes "createSchemaComponentFromObject K name obj d g = Inr (ref, g')"
  shows "ref = JObj [(''$ref'', JStr (''#/components/schemas/'' @ name))]
    \<and> (\<exists>properties. map fst properties = map fst obj
         \<and> schemas g' name = Some (JObj
              [(''type'', JStr ''object''),
               (''properties'', JObj (fromEntries properties)),
               (''required'', if requiredFields K obj \<noteq> []
                              then JArr (map JStr (requiredFields K obj)) else JUndefined),
               (''default'', d)]))
    \<and> count_list (warnings g') (SchemaOverwrite name)
        = count_list (warnings g) (SchemaOverwrite name) + (if registered g name then 1 else 0)"
proof -
  let ?g0 = "if map_of (components g) ''schemas'' = None
             then g\<lparr>components := put ''schemas'' [] (components g)\<rparr> else g"
  from assms obtain rq ps g1 where p: "createProperties K name obj ?g0 = Inr (rq, ps, g1)"
    and ref: "ref = JObj [(''$ref'', JStr (''#/components/schemas/'' @ name))]"
    and g': "g' = storeComponent name
                (JObj [(''type'', JStr ''object''),
                       (''properties'', JObj (fromEntries ps)),
                       (''required'', if rq \<noteq> [] then JArr (map JStr rq) else JUndefined),
                       (''default'', d)])
                (if registered g1 name then warn (SchemaOverwrite name) g1 else g1)"
    unfolding createSchemaComponentFromObject_unfold by blast
  from createProperties_fields [OF p] have rq: "rq = requiredFields K obj"
    and ps: "map fst ps = map fst obj" by simp_all
  from create_frame(2) p have "frame (name @ ''.'') ?g0 g1" by blast
  moreover have "\<not> prefix (name @ ''.'') name" by (simp add: prefix_def)
  ultimately have s1: "schemas g1 name = schemas ?g0 name"
    and w1: "count_list (warnings g1) (SchemaOverwrite name)
             = count_list (warnings ?g0) (SchemaOverwrite name)"
    unfolding frame_def by blast+
  have s0: "schemas ?g0 name = schemas g name" by (simp only: schemas_init)
  have w0: "warnings ?g0 = warnings g" by simp
  from s0 s1 have reg: "registered g1 name = registered g name" by (simp add: registered_def)
  have "schemas g' name = Some (JObj
              [(''type'', JStr ''object''),
               (''properties'', JObj (fromEntries ps)),
               (''required'', if requiredFields K obj \<noteq> []
                              then JArr (map JStr (requiredFields K obj)) else JUndefined),
               (''default'', d)])"
    by (simp add: g' schemas_storeComponent rq)
  moreover have "count_list (warnings g') (SchemaOverwrite name)
        = count_list (warnings g) (SchemaOverwrite name) + (if registered g name then 1 else 0)"
    by (simp add: g' warnings_storeComponent warnings_warn reg w1 w0)
  ultimately show ?thesis using ref ps by blast
qed

text \<open>On well-formed fragments the registration returns.\<close>

lemma createSchemaPartFromRule_cases:
  assumes "rule \<noteq> JUndefined" "rule \<noteq> JNull"
  shows "createSchemaPartFromRule K n rule g =
     (let rule1 = js_set ''deprecated'' (js_get rule (ext_deprecated K))
                      (js_set ''title'' (js_get rule (ext_summary K))
                        (js_set ''description'' (js_get rule (ext_description K)) rule))
      in if js_get rule ''type'' = JStr ''object'' \<and> truthy (js_get rule ''properties'')
           then bind_err (createSchemaComponentFromObject K n
                            (entries (js_get rule ''properties'')) (js_get rule ''default'') g)
                  (\<lambda>(ref, g1).
                     Inr (JObj (spread
                            [(''summary'', js_get rule1 ''title''),
                             (''deprecated'', js_get rule1 ''deprecated''),
                             (''description'', js_get rule1 ''description'')]
                            (entries ref)), g1))
           else if js_get rule ''type'' = JStr ''array'' \<and> truthy (js_get rule ''items'')
           then bind_err (createSchemaPartFromRule K n (js_get rule ''items'') g)
                  (\<lambda>(part, g1). Inr (js_set ''items'' part rule1, g1))
           else if list_ex (\<lambda>property. truthy (js_get rule property)) multiOAProperties
           then bind_err (createMulti K n multiOAProperties rule rule1 0 g)
                  (\<lambda>(rule2, i, g1). Inr (rule2, g1))
           else Inr (rule1, g))"
  using assms by (subst createSchemaPartFromRule.simps) simp

lemma create_total:
  "wellFormedFields obj \<longrightarrow> (\<exists>res. createSchemaComponentFromObject K n obj d g = Inr res)"
  "wellFormedFields obj \<longrightarrow> (\<exists>res. createProperties K n obj g = Inr res)"
  "wellFormed rule \<longrightarrow> (\<exists>res. createSchemaPartFromRule K n rule g = Inr res)"
  "wellFormedMulti props rule \<longrightarrow> (\<exists>res. createMulti K n props rule acc i g = Inr res)"
  "wellFormedMembers xs \<longrightarrow> (\<exists>res. createMembers K n xs i g = Inr res)"
proof (induction K n obj d g and K n obj g and K n rule g and K n props rule acc i g and K n xs i g
    rule: createSchemaComponentFromObject_createProperties_createSchemaPartFromRule_createMulti_createMembers.induct)
  case (1 K n obj d g)
  show ?case
  proof
    assume "wellFormedFields obj"
    with "1.IH" [OF refl] obtain rq ps g1 where "createProperties K n obj
          (if map_of (components g) ''schemas'' = None
           then g\<lparr>components := put ''schemas'' [] (components g)\<rparr> else g) = Inr (rq, ps, g1)"
      by (metis prod_cases3)
    then show "\<exists>res. createSchemaComponentFromObject K n obj d g = Inr res"
      using createSchemaComponentFromObject_unfold by blast
  qed
next
  case (2 K n g)
  show ?case by simp
next
  case (3 K n f rule rest g)
  show ?case
  proof
    assume w: "wellFormedFields ((f, rule) # rest)"
    then have wr: "wellFormed rule" and wrest: "wellFormedFields rest" by simp_all
    from wr have nn: "\<not> (rule = JUndefined \<or> rule = JNull)"
      by (subst (asm) wellFormed.simps) simp
    from "3.IH"(1) [OF nn refl refl] wr obtain part g1 where
      1: "createSchemaPartFromRule K (n @ ''.'' @ f) rule g = Inr (part, g1)" by fastforce
    from "3.IH"(2) [OF nn refl refl 1 refl] wrest obtain res where
      2: "createProperties K n rest g1 = Inr res" by blast
    obtain rq ps g2 where "res = (rq, ps, g2)" by (cases res) auto
    with nn 1 2 show "\<exists>res. createProperties K n ((f, rule) # rest) g = Inr res"
      by (simp add: Let_def)
  qed
next
  case (4 K n rule g)
  show ?case
  proof
    assume w: "wellFormed rule"
    then have nn: "\<not> (rule = JUndefined \<or> rule = JNull)"
      by (subst (asm) wellFormed.simps) simp
    then have n1: "rule \<noteq> JUndefined" and n2: "rule \<noteq> JNull" by simp_all
    consider (obj) "js_get rule ''type'' = JStr ''object'' \<and> truthy (js_get rule ''properties'')"
      | (arr) "\<not> (js_get rule ''type'' = JStr ''object'' \<and> truthy (js_get rule ''properties''))"
          "js_get rule ''type'' = JStr ''array'' \<and> truthy (js_get rule ''items'')"
      | (multi) "\<not> (js_get rule ''type'' = JStr ''object'' \<and> truthy (js_get rule ''properties''))"
          "\<not> (js_get rule ''type'' = JStr ''array'' \<and> truthy (js_get rule ''items''))"
          "list_ex (\<lambda>property. truthy (js_get rule property)) multiOAProperties"
      | (plain) "\<not> (js_get rule ''type'' = JStr ''object'' \<and> truthy (js_get rule ''properties''))"
          "\<not> (js_get rule ''type'' = JStr ''array'' \<and> truthy (js_get rule ''items''))"
          "\<not> list_ex (\<lambda>property. truthy (js_get rule property)) multiOAProperties"
      by blast
    then show "\<exists>res. createSchemaPartFromRule K n rule g = Inr res"
    proof cases
      case obj
      with w have "wellFormedFields (entries (js_get rule ''properties''))"
        by (subst (asm) wellFormed.simps) simp
      with "4.IH"(1) [OF nn refl obj] obtain ref g1 where
        "createSchemaComponentFromObject K n (entries (js_get rule ''properties''))
           (js_get rule ''default'') g = Inr (ref, g1)" by fastforce
      with obj show ?thesis
        by (simp add: createSchemaPartFromRule_cases [OF n1 n2] Let_def)
    next
      case arr
      with w have "wellFormed (js_get rule ''items'')"
        by (subst (asm) wellFormed.simps) simp
      with "4.IH"(2) [OF nn refl arr] obtain part g1 where
        "createSchemaPartFromRule K n (js_get rule ''items'') g = Inr (part, g1)" by fastforce
      with arr show ?thesis
        by (simp add: createSchemaPartFromRule_cases [OF n1 n2] Let_def)
    next
      case multi
      with w have "wellFormedMulti multiOAProperties rule"
        by (subst (asm) wellFormed.simps) simp
      with "4.IH"(3) [OF nn refl multi] obtain rule2 i1 g1 where
        "createMulti K n multiOAProperties rule
          (js_set ''deprecated'' (js_get rule (ext_deprecated K))
            (js_set ''title'' (js_get rule (ext_summary K))
              (js_set ''description'' (js_get rule (ext_description K)) rule))) 0 g
          = Inr (rule2, i1, g1)" by (metis prod_cases3)
      moreover from multi have
        "(js_get rule ''type'' = JStr ''object'' \<and> truthy (js_get rule ''properties'')) = False"
        "(js_get rule ''type'' = JStr ''array'' \<and> truthy (js_get rule ''items'')) = False"
        "list_ex (\<lambda>property. truthy (js_get rule property)) multiOAProperties = True"
        by simp_all
      ultimately show ?thesis
        by (simp only: createSchemaPartFromRule_cases [OF n1 n2] Let_def if_False if_True
              bind_err.simps prod.case) blast
    next
      case plain
      then have
        "(js_get rule ''type'' = JStr ''object'' \<and> truthy (js_get rule ''properties'')) = False"
        "(js_get rule ''type'' = JStr ''array'' \<and> truthy (js_get rule ''items'')) = False"
        "list_ex (\<lambda>property. truthy (js_get rule property)) multiOAProperties = False"
        by simp_all
      then show ?thesis
        by (simp only: createSchemaPartFromRule_cases [OF n1 n2] Let_def if_False) blast
    qed
  qed
next
  case (5 K n rule acc i g)
  show ?case by simp
next
  case (6 K n p ps rule acc i g)
  show ?case
  proof
    assume w: "wellFormedMulti (p # ps) rule"
    show "\<exists>res. createMulti K n (p # ps) rule acc i g = Inr res"
    proof (cases "truthy (js_get rule p)")
      case False
      with w "6.IH"(1) show ?thesis by simp
    next
      case True
      then have t: "\<not> \<not> truthy (js_get rule p)" by simp
      from w True have "wellFormedMembers (items_of (js_get rule p))" by simp
      with "6.IH"(2) [OF t] obtain members i1 g1 where
        1: "createMembers K n (items_of (js_get rule p)) i g = Inr (members, i1, g1)"
        by (metis prod_cases3)
      from w have "wellFormedMulti ps rule" by simp
      with "6.IH"(3) [OF t 1 refl refl] obtain res where
        2: "createMulti K n ps rule (js_set p (JArr members) acc) i1 g1 = Inr res" by blast
      obtain r2 i2 g2 where "res = (r2, i2, g2)" by (cases res) auto
      with True 1 2 show ?thesis by simp
    qed
  qed
next
  case (7 K n i g)
  show ?case by simp
next
  case (8 K n schema rest i g)
  show ?case
  proof
    assume w: "wellFormedMembers (schema # rest)"
    then have nn: "\<not> (schema = JUndefined \<or> schema = JNull)" by simp
    from w have wrest: "wellFormedMembers rest" by simp
    show "\<exists>res. createMembers K n (schema # rest) i g = Inr res"
    proof (cases "js_get schema ''type'' \<noteq> JStr ''object''")
      case True
      from "8.IH"(1) [OF nn True] wrest obtain members i1 g1 where
        "createMembers K n rest i g = Inr (members, i1, g1)" by (metis prod_cases3)
      with nn True show ?thesis by simp
    next
      case False
      with w have "wellFormed schema" by simp
      with "8.IH"(2) [OF nn False] obtain part g1 where
        1: "createSchemaPartFromRule K (n @ ''.'' @ show_nat i) schema g = Inr (part, g1)"
        by fastforce
      from "8.IH"(3) [OF nn False 1 refl] wrest obtain members i1 g2 where
        "createMembers K n rest (Suc i) g1 = Inr (members, i1, g2)" by (metis prod_cases3)
      with nn False 1 show ?thesis by simp
    qed
  qed
qed

subsection \<open>The request body of an ordinary route\<close>

lemma split_on_no_sep: "c \<notin> set s \<Longrightarrow> split_on c s = [s]"
  by (induction s) auto

lemma map_of_components_json:
  "map_of (map (\<lambda>(k, es). (k, JObj es)) c) k = map_option JObj (map_of c k)"
  by (induction c) auto

lemma getComponentByRef_registered:
  assumes "name \<noteq> []" and "CHR ''/'' \<notin> set name" and "schemas g name = Some c"
    and "map_of (components g) ''hasOwnProperty'' = None"
    and "schemas g ''hasOwnProperty'' = None"
  shows "getComponentByRef g (''#/components/schemas/'' @ name) = Inr c"
proof -
  from assms(3) obtain sec where sec: "map_of (components g) ''schemas'' = Some sec"
    and c: "map_of sec name = Some c"
    by (auto simp: schemas_def section_of_def split: option.splits)
  from sec have k: "''schemas'' \<in> set (map fst (components g))"
    by (metis map_of_eq_None_iff option.distinct(1) set_map)
  from assms(5) sec have h: "map_of sec ''hasOwnProperty'' = None"
    by (simp add: schemas_def section_of_def)
  have s: "filter (\<lambda>segment. segment \<noteq> []) (split_on CHR ''/'' (''#/components/schemas/'' @ name))
      = [''#'', ''components'', ''schemas'', name]"
    using assms(1,2) by (simp add: split_on_no_sep)
  show ?thesis
    unfolding getComponentByRef_def s
    using k sec c h assms(4)
    by (simp add: components_json_def map_of_components_json refStep_def)
qed


lemma getParameters_truthy:
  assumes "getParameters K m (nullish params (JObj [])) b \<noteq> []"
  shows "truthy params"
  using assms
  by (cases params) (auto simp: getParameters_def getValidationRules_def nullish_def fromEntries_def)

lemma ordinaryBody_required:
  assumes "ordinaryBody K a metas schema g = Inr body" and "isReferenceObject schema"
    and "componentOfRef g schema = Inr c" and "truthy c"
  shows "js_get body ''required'' = JBool (nonempty (nullish (js_get c ''required'') (JArr [])))"
  using assms unfolding ordinaryBody_def Let_def by (auto simp: bind_err_Inr)

lemma body_required_aux:
  assumes ex: "extractParameters K conv m path a g = Inr (extracted, g')"
    and ordinary: "nullish (alias_type a) (JStr []) \<notin> {JStr ''multipart'', JStr ''stream''}"
    and no_override: "\<not> truthy (js_get (openapi a) ''requestBody'')"
    and act: "action a = JStr name" and name: "name \<noteq> []" and slash: "CHR ''/'' \<notin> set name"
    and body: "getParameters K m (nullish (js_get (actionSchema a) ''params'') (JObj [])) True \<noteq> []"
    and not_root: "js_get (currentBodyParameters K m a) ''$$root'' \<noteq> JBool True"
    and unshadowed: "map_of (components g') ''hasOwnProperty'' = None"
      "schemas g' ''hasOwnProperty'' = None"
  shows "\<exists>rootRules component.
      getSchemaObjectFromSchema conv (currentBodyParameters K m a) = Inr rootRules
    \<and> schemas g' name = Some component
    \<and> js_get component ''required'' =
        (if requiredFields K (bodyFields (map (\<lambda>p. js_get p ''name'') (pathParametersOf a path)) rootRules) \<noteq> []
         then JArr (map JStr (requiredFields K
                 (bodyFields (map (\<lambda>p. js_get p ''name'') (pathParametersOf a path)) rootRules)))
         else JUndefined)
    \<and> js_get (requestBody extracted) ''required'' =
        JBool (requiredFields K
                 (bodyFields (map (\<lambda>p. js_get p ''name'') (pathParametersOf a path)) rootRules) \<noteq> [])"
proof -
  let ?excl = "map (\<lambda>p. js_get p ''name'') (pathParametersOf a path)"
  from getParameters_truthy [OF body] have tp: "truthy (js_get (actionSchema a) ''params'')" .
  from act name have ta: "truthy (action a)" by simp
  from ex ordinary tp ta obtain params body' where
    b: "extractBody K conv m a g ?excl = Inr (body', g')" and rb: "requestBody extracted = body'"
    unfolding extractParameters_def Let_def by (auto simp: bind_err_Inr)
  from b no_override ta body obtain schema metas where
    c: "createRequestBodyFromParams K conv name (currentBodyParameters K m a) ?excl g = Inr (schema, g')"
    and o: "ordinaryBody K a metas schema g' = Inr body'"
    unfolding extractBody_def Let_def by (auto simp: bind_err_Inr act)
  from c not_root obtain rootRules where
    rr: "getSchemaObjectFromSchema conv (currentBodyParameters K m a) = Inr rootRules" and
    cc: "createSchemaComponentFromObject K name (bodyFields ?excl rootRules) JUndefined g = Inr (schema, g')"
    unfolding createRequestBodyFromParams_def by (auto simp: bind_err_Inr)
  from register_component_aux [OF cc] obtain ps where
    ref: "schema = JObj [(''$ref'', JStr (''#/components/schemas/'' @ name))]" and
    s: "schemas g' name = Some (JObj
              [(''type'', JStr ''object''),
               (''properties'', JObj (fromEntries ps)),
               (''required'', if requiredFields K (bodyFields ?excl rootRules) \<noteq> []
                              then JArr (map JStr (requiredFields K (bodyFields ?excl rootRules)))
                              else JUndefined),
               (''default'', JUndefined)])"
    by blast
  have h: "js_get schema ''$ref'' = JStr (''#/components/schemas/'' @ name)" by (simp add: ref)
  then have iro: "isReferenceObject schema" by (simp add: isReferenceObject_def)
  have cr: "componentOfRef g' schema = Inr (JObj
              [(''type'', JStr ''object''),
               (''properties'', JObj (fromEntries ps)),
               (''required'', if requiredFields K (bodyFields ?excl rootRules) \<noteq> []
                              then JArr (map JStr (requiredFields K (bodyFields ?excl rootRules)))
                              else JUndefined),
               (''default'', JUndefined)])"
    by (simp only: componentOfRef_def h json.case
          getComponentByRef_registered [OF name slash s unshadowed])
  from ordinaryBody_required [OF o iro cr]
  have "js_get body' ''required'' = JBool (requiredFields K (bodyFields ?excl rootRules) \<noteq> [])"
    by (simp add: nullish_def)
  with rr s rb show ?thesis by simp
qed


subsection \<open>The request body of a multipart route\<close>

lemma multipart_root_aux:
  assumes "alias_type a = JStr ''multipart''"
    and "\<not> truthy (js_get (openapi a) ''requestBody'')"
    and "js_path (actionSchema a) [''params'', ''$$root''] = JBool True"
  shows "extractParameters K conv m path a g
           = Inl (Error ''$$root parameters is not supported on multipart'')"
  using assms
  by (simp add: extractParameters_def generateFileUploadBody_def Let_def nullish_def)

lemma multipart_object_aux:
  assumes mp: "alias_type a = JStr ''multipart''"
    and no: "\<not> truthy (js_get (openapi a) ''requestBody'')"
    and nr: "js_path (actionSchema a) [''params'', ''$$root''] \<noteq> JBool True"
    and act: "action a = JStr name" and name: "name \<noteq> []"
    and tp: "truthy (js_get (actionSchema a) ''params'')"
    and ct: "map_of (BODY_PARSERS_CONTENT_TYPE K) ''multipart'' = Some (t # ts)"
    and rr: "getSchemaObjectFromSchema conv (js_get (actionSchema a) ''params'') = Inr rootRules"
    and wf: "wellFormedFields (bodyFields (map (\<lambda>p. js_get p ''name'') (pathParametersOf a path)) rootRules)"
  shows "\<exists>extracted g' properties.
      extractParameters K conv m path a g = Inr (extracted, g')
    \<and> requestBody extracted = JObj
         [(''required'', JBool True),
          (''content'', JObj [(t, JObj [(''schema'', JObj [(''allOf'',
              JArr [fileObjectOf K a,
                    JObj [(''$ref'', JStr (''#/components/schemas/'' @ name))]])])])])]
    \<and> map fst properties
         = map fst (bodyFields (map (\<lambda>p. js_get p ''name'') (pathParametersOf a path)) rootRules)
    \<and> schemas g' name = Some (JObj
         [(''type'', JStr ''object''),
          (''properties'', JObj (fromEntries properties)),
          (''required'',
             if requiredFields K (bodyFields (map (\<lambda>p. js_get p ''name'') (pathParametersOf a path)) rootRules) \<noteq> []
             then JArr (map JStr (requiredFields K
                     (bodyFields (map (\<lambda>p. js_get p ''name'') (pathParametersOf a path)) rootRules)))
             else JUndefined),
          (''default'', JUndefined)])"
proof -
  let ?excl = "map (\<lambda>p. js_get p ''name'') (pathParametersOf a path)"
  from create_total(1) wf obtain res where
    "createSchemaComponentFromObject K name (bodyFields ?excl rootRules) JUndefined g = Inr res"
    by blast
  then obtain ref g' where
    c: "createSchemaComponentFromObject K name (bodyFields ?excl rootRules) JUndefined g = Inr (ref, g')"
    by (cases res) auto
  from register_component_aux [OF c] obtain properties where
    ref: "ref = JObj [(''$ref'', JStr (''#/components/schemas/'' @ name))]" and
    ks: "map fst properties = map fst (bodyFields ?excl rootRules)" and
    s: "schemas g' name = Some (JObj
              [(''type'', JStr ''object''),
               (''properties'', JObj (fromEntries properties)),
               (''required'', if requiredFields K (bodyFields ?excl rootRules) \<noteq> []
                              then JArr (map JStr (requiredFields K (bodyFields ?excl rootRules)))
                              else JUndefined),
               (''default'', JUndefined)])"
    by blast
  from nr have nr': "js_get (js_get (actionSchema a) ''params'') ''$$root'' \<noteq> JBool True" by simp
  have b: "createRequestBodyFromParams K conv name (js_get (actionSchema a) ''params'') ?excl g
             = Inr (ref, g')"
    using nr' rr c by (simp add: createRequestBodyFromParams_def)
  have tr: "truthy ref" by (simp add: ref)
  have "generateFileUploadBody K conv a ?excl g = Inr (JObj
         [(''required'', JBool True),
          (''content'', JObj [(t, JObj [(''schema'', JObj [(''allOf'',
              JArr [fileObjectOf K a, ref])])])])], g')"
    using mp nr act name tp ct b tr
    by (simp add: generateFileUploadBody_def Let_def)
  then have "extractParameters K conv m path a g = Inr (\<lparr>parameters = pathParametersOf a path,
       requestBody = JObj
         [(''required'', JBool True),
          (''content'', JObj [(t, JObj [(''schema'', JObj [(''allOf'',
              JArr [fileObjectOf K a, ref])])])])]\<rparr>, g')"
    using mp no by (simp add: extractParameters_def Let_def nullish_def)
  with ks s ref show ?thesis by auto
qed


subsection \<open>The sort of the routes\<close>

lemma insert_sorted_insort_key:
  assumes "\<And>a b. (compare a b \<le> 0) = (f a \<le> f b)"
  shows "insert_sorted compare x ys = insort_key f x ys"
  using assms by (induction ys) simp_all

lemma array_sort_sort_key:
  assumes "\<And>a b. (compare a b \<le> 0) = (f a \<le> f b)"
  shows "array_sort compare xs = sort_key f xs"
  unfolding array_sort_def sort_key_def
  using insert_sorted_insort_key [of compare f, OF assms] by (induction xs) simp_all

lemma generate_heap:
  assumes "generate E base openApiVersion aliasesRef g H = (Inr out, H')"
  shows "\<exists>aliases. H aliasesRef = Some aliases
           \<and> H' = H(aliasesRef \<mapsto> array_sort (compareFullPath E) aliases)"
  using assms unfolding generate_def Let_def
  by (auto split: sum.splits option.splits)

subsection \<open>Registrations are kept\<close>











subsection \<open>Merging components\<close>

lemma map_of_spread:
  "distinct (map fst b) \<Longrightarrow> map_of (spread a b) = map_of a ++ map_of b"
  unfolding spread_def
proof (induction b arbitrary: a)
  case Nil
  then show ?case by simp
next
  case (Cons e b)
  obtain k v where e: "e = (k, v)" by (cases e)
  with Cons.prems have "map_of b k = None" by (simp add: map_of_eq_None_iff)
  with Cons e show ?case
    by (auto simp: map_of_put fun_eq_iff map_add_def split: option.splits)
qed

lemma map_of_merge_fold:
  "map_of (fold (\<lambda>key acc.
             if map fst (section_of c2 key) = [] then acc
             else put key (spread (section_of c1 key) (section_of c2 key)) acc) ks acc) key =
   (if key \<in> set ks \<and> section_of c2 key \<noteq> []
    then Some (spread (section_of c1 key) (section_of c2 key)) else map_of acc key)"
  by (induction ks arbitrary: acc) (auto simp: map_of_put)

lemma section_of_mergeComponents:
  "section_of (mergeComponents c1 c2) key =
     (if section_of c2 key = [] then section_of c1 key
      else spread (section_of c1 key) (section_of c2 key))"
proof -
  have m: "map_of (mergeComponents c1 c2) key =
      (if key \<in> set (map fst c2) \<and> section_of c2 key \<noteq> []
       then Some (spread (section_of c1 key) (section_of c2 key)) else map_of c1 key)"
    unfolding mergeComponents_def by (rule map_of_merge_fold)
  have s: "section_of (mergeComponents c1 c2) key =
      (case map_of (mergeComponents c1 c2) key of Some es \<Rightarrow> es | None \<Rightarrow> [])"
    by (simp add: section_of_def)
  show ?thesis
  proof (cases "section_of c2 key = []")
    case True
    with m s show ?thesis by (simp add: section_of_def [of c1])
  next
    case False
    then have "key \<in> set (map fst c2)"
      by (auto simp: section_of_def split: option.splits dest: map_of_SomeD intro: rev_image_eqI)
    with False m s show ?thesis by simp
  qed
qed

subsection \<open>The components of the returned document\<close>

lemma distinct_put: "distinct (map fst kvs) \<Longrightarrow> distinct (map fst (put k v kvs))"
proof (induction kvs)
  case Nil
  then show ?case by simp
next
  case (Cons e kvs)
  obtain k' v' where e: "e = (k', v')" by (cases e)
  from Cons e show ?case
    using put_keys [of k v kvs] by (auto simp: image_iff)
qed

lemma distinct_fold_put:
  "distinct (map fst acc) \<Longrightarrow> distinct (map fst (fold (\<lambda>(k, v) acc. put k v acc) es acc))"
  by (induction es arbitrary: acc) (auto simp: distinct_put)

lemma distinct_fromEntries: "distinct (map fst (fromEntries es))"
  unfolding fromEntries_def by (rule distinct_fold_put) simp

lemma distinct_spread: "distinct (map fst a) \<Longrightarrow> distinct (map fst (spread a b))"
  unfolding spread_def by (rule distinct_fold_put)

lemma map_of_del: "map_of (del x kvs) k = (if k = x then None else map_of kvs k)"
  unfolding del_def by (induction kvs) auto

lemma distinct_del: "distinct (map fst kvs) \<Longrightarrow> distinct (map fst (del x kvs))"
  unfolding del_def by (simp add: distinct_map_filter)

lemma map_of_fold_del:
  "k \<notin> set exts \<Longrightarrow> map_of (fold del exts kvs) k = map_of kvs k"
  by (induction exts arbitrary: kvs) (auto simp: map_of_del)

lemma distinct_fold_del:
  "distinct (map fst kvs) \<Longrightarrow> distinct (map fst (fold del exts kvs))"
  by (induction exts arbitrary: kvs) (auto simp: distinct_del)

lemma map_of_fromEntries: "distinct (map fst es) \<Longrightarrow> map_of (fromEntries es) = map_of es"
  using map_of_spread [of es "[]"] by (simp add: fromEntries_def spread_def)

lemma removeExtensions_entries_lookup:
  "removeExtensions_entries exts kvs = Inr es \<Longrightarrow>
     map fst es = map fst kvs
   \<and> (map_of kvs k = Some v \<longrightarrow> (\<exists>v'. removeExtensions exts v = Inr v' \<and> map_of es k = Some v'))"
proof (induction kvs arbitrary: es)
  case Nil
  then show ?case by simp
next
  case (Cons e kvs)
  obtain k0 v0 where e: "e = (k0, v0)" by (cases e)
  from Cons.prems e obtain y es' where y: "removeExtensions exts v0 = Inr y"
    and es': "removeExtensions_entries exts kvs = Inr es'" and es: "es = (k0, y) # es'"
    by (auto split: sum.splits)
  from Cons.IH [OF es'] y e es show ?case by auto
qed

lemma removeExtensions_lookup:
  assumes "removeExtensions exts (JObj kvs) = Inr d" and "distinct (map fst kvs)"
    and "k \<notin> set exts" and "map_of kvs k = Some v"
  shows "\<exists>v'. removeExtensions exts v = Inr v' \<and> js_get d k = v'"
proof -
  from assms(1) obtain es where es: "removeExtensions_entries exts (fold del exts kvs) = Inr es"
    and d: "d = JObj (fromEntries es)"
    by (auto split: sum.splits)
  from assms(3,4) have m: "map_of (fold del exts kvs) k = Some v" by (simp add: map_of_fold_del)
  from removeExtensions_entries_lookup [OF es] m obtain v' where
    ks: "map fst es = map fst (fold del exts kvs)" and
    v': "removeExtensions exts v = Inr v'" and e: "map_of es k = Some v'"
    by blast
  from ks assms(2) have "distinct (map fst es)" by (simp add: distinct_fold_del)
  with e have "map_of (fromEntries es) k = Some v'" by (simp add: map_of_fromEntries)
  with v' d show ?thesis by simp
qed


lemma docInv_js_set: "k \<noteq> ''components'' \<Longrightarrow> docInv C d \<Longrightarrow> docInv C (js_set k v d)"
  by (auto simp: docInv_def js_set_def distinct_put map_of_put)

lemma docInv_set_components:
  "distinct (map fst (entries d)) \<Longrightarrow> docInv C (js_set ''components'' C d)"
  by (simp add: docInv_def js_set_def distinct_put map_of_put)

lemma docInv_del: "k \<noteq> ''components'' \<Longrightarrow> docInv C d \<Longrightarrow> docInv C (JObj (del k (entries d)))"
  by (auto simp: docInv_def distinct_del map_of_del)

lemma docInv_addServer: "docInv C d \<Longrightarrow> docInv C (addServerToDocument d server)"
  by (simp add: addServerToDocument_def Let_def docInv_js_set)

lemma docInv_fold_tags:
  "docInv C d \<Longrightarrow>
   docInv C (fold (\<lambda>tag d. if P tag d then js_set ''tags'' (F tag d) d else d) tags d)"
  by (induction tags arbitrary: d) (simp_all add: docInv_js_set)

lemma docInv_handleTags: "docInv C d \<Longrightarrow> docInv C (fst (handleTags d tags_map tags))"
  unfolding handleTags_def Let_def fst_conv
  by (rule docInv_fold_tags) (simp add: docInv_js_set)

lemma pathActionStep_docInv:
  assumes "pathActionStep E a openapiPath pa (currentPath, S) = Inr (currentPath', S')"
    and "docInv C (document S)"
  shows "docInv C (document S')"
proof -
  obtain openApi tags_map where m: "OpenApiMerger_merge E (tagsMap S) a pa = (openApi, tags_map)"
    by force
  show ?thesis
    using assms m
    by (cases "summaryTemplate a")
       (auto simp: pathActionStep_def Let_def bind_err_Inr docInv_addServer docInv_handleTags
             split: if_splits json.splits)
qed

lemma foldM_pathActionStep_docInv:
  "foldM_err (pathActionStep E a openapiPath) pas (currentPath, S) = Inr (currentPath', S') \<Longrightarrow>
   docInv C (document S) \<Longrightarrow> docInv C (document S')"
proof (induction pas arbitrary: currentPath S)
  case Nil
  then show ?case by simp
next
  case (Cons pa pas)
  from Cons.prems(1) obtain cp1 S1 where
    1: "pathActionStep E a openapiPath pa (currentPath, S) = Inr (cp1, S1)" and
    2: "foldM_err (pathActionStep E a openapiPath) pas (cp1, S1) = Inr (currentPath', S')"
    by (auto simp: bind_err_Inr)
  from pathActionStep_docInv [OF 1 Cons.prems(2)] Cons.IH [OF 2] show ?case by blast
qed

lemma aliasStep_docInv:
  assumes "aliasStep E a S = Inr S'" and "docInv C (document S)"
  shows "docInv C (document S')"
proof -
  let ?S0 = "if \<not> truthy (js_get (document S) ''paths'')
             then S\<lparr>document := js_set ''paths'' (JObj []) (document S)\<rparr> else S"
  have 0: "docInv C (document ?S0)" using assms(2) by (simp add: docInv_js_set)
  from assms(1) obtain cp cp1 S1 where
    f: "foldM_err (pathActionStep E a (formatParamUrl (normalizePath E (fullPath a)))) (getPaths a)
          (cp, ?S0) = Inr (cp1, S1)"
    and S': "S' = S1\<lparr>document := js_set ''paths''
                 (js_set (formatParamUrl (normalizePath E (fullPath a))) cp1
                    (js_get (document S1) ''paths'')) (document S1)\<rparr>"
    unfolding aliasStep_def Let_def by (auto simp: bind_err_Inr)
  from foldM_pathActionStep_docInv [OF f 0] show ?thesis
    by (simp add: S' docInv_js_set)
qed

lemma foldM_aliasStep_docInv:
  "foldM_err (aliasStep E) aliases S = Inr S' \<Longrightarrow> docInv C (document S) \<Longrightarrow> docInv C (document S')"
proof (induction aliases arbitrary: S)
  case Nil
  then show ?case by simp
next
  case (Cons a aliases)
  from Cons.prems(1) obtain S1 where
    1: "aliasStep E a S = Inr S1" and 2: "foldM_err (aliasStep E) aliases S1 = Inr S'"
    by (auto simp: bind_err_Inr)
  from aliasStep_docInv [OF 1 Cons.prems(2)] Cons.IH [OF 2] show ?case by blast
qed


lemma set_put_subset: "set (put k v kvs) \<subseteq> insert (k, v) (set kvs)"
  by (induction kvs) (auto split: if_splits)

lemma set_fold_put_subset:
  "set (fold (\<lambda>(k, v) acc. put k v acc) es acc) \<subseteq> set es \<union> set acc"
proof (induction es arbitrary: acc)
  case Nil
  then show ?case by simp
next
  case (Cons e es)
  obtain k v where e: "e = (k, v)" by (cases e)
  from Cons [of "put k v acc"] set_put_subset [of k v acc] e show ?case by auto
qed

lemma set_fromEntries_subset: "set (fromEntries es) \<subseteq> set es"
  using set_fold_put_subset [of es "[]"] by (simp add: fromEntries_def)

lemma mapM_err_all:
  "mapM_err f xs = Inr ys \<Longrightarrow> (\<And>x y. f x = Inr y \<Longrightarrow> P y) \<Longrightarrow> \<forall>y \<in> set ys. P y"
proof (induction xs arbitrary: ys)
  case Nil
  then show ?case by simp
next
  case (Cons x xs)
  from Cons.prems(1) obtain y ys' where "f x = Inr y" "mapM_err f xs = Inr ys'" "ys = y # ys'"
    by (auto simp: bind_err_Inr)
  with Cons.IH [of ys'] Cons.prems(2) show ?case by auto
qed

lemma cleanComponents_distinct:
  assumes "cleanComponents j = Inr cs"
  shows "distinct (map fst cs) \<and> distinct (map fst (section_of cs key))"
proof -
  from assms obtain es where
    es: "mapM_err (\<lambda>(k, v).
                  if v = JUndefined \<or> v = JNull then Inl TypeError
                  else Inr (k, fromEntries (filter (\<lambda>(key, val). val \<noteq> JBool False)
                                               (Object_entries v))))
                (Object_entries j) = Inr es"
    and cs: "cs = fromEntries es"
    unfolding cleanComponents_def by (auto simp: bind_err_Inr split: if_splits)
  have "\<forall>y \<in> set es. distinct (map fst (snd y))"
    by (rule mapM_err_all [OF es]) (auto simp: distinct_fromEntries split: if_splits)
  with set_fromEntries_subset [of es] cs have "\<forall>y \<in> set cs. distinct (map fst (snd y))" by blast
  then have "distinct (map fst (section_of cs key))"
    by (auto simp: section_of_def split: option.splits dest!: map_of_SomeD)
  with cs show ?thesis by (simp add: distinct_fromEntries)
qed

lemma components_of_json_inverse: "components_of_json (components_json cs) = cs"
  by (induction cs) (auto simp: components_of_json_def components_json_def)

lemma seedDocument_docInv:
  assumes "seedDocument base openApiVersion = Inr doc"
  shows "\<exists>cs. docInv (components_json cs) doc \<and> distinct (map fst cs)
            \<and> (\<forall>key. distinct (map fst (section_of cs key)))"
proof -
  let ?base1 = "if truthy (js_get base ''openapi'') then JObj (del ''openapi'' (entries base))
                else base"
  let ?d = "js_set ''tags'' (JArr [])
              (js_set ''servers'' (JArr [])
                 (JObj (spread [(''openapi'', JStr (openApiVersion @ ''.0''))]
                          (Object_entries ?base1))))"
  from assms obtain cs where c: "cleanComponents (js_get ?base1 ''components'') = Inr cs"
    and doc: "doc = (let doc0 = js_set ''components'' (components_json cs) ?d
                     in if truthy (js_get doc0 ''responses'')
                        then JObj (del ''responses'' (entries doc0)) else doc0)"
    unfolding seedDocument_def Let_def by (auto simp: bind_err_Inr split: if_splits)
  have "distinct (map fst (entries ?d))"
    by (simp add: js_set_def distinct_put distinct_spread)
  then have "docInv (components_json cs) (js_set ''components'' (components_json cs) ?d)"
    by (rule docInv_set_components)
  then have "docInv (components_json cs) doc"
    unfolding doc Let_def by (simp add: docInv_del)
  with cleanComponents_distinct [OF c] show ?thesis by blast
qed

lemma distinct_mergeComponents:
  "distinct (map fst c1) \<Longrightarrow> distinct (map fst (mergeComponents c1 c2))"
proof -
  have "distinct (map fst acc) \<Longrightarrow>
        distinct (map fst (fold (\<lambda>key acc.
             if map fst (section_of c2 key) = [] then acc
             else put key (spread (section_of c1 key) (section_of c2 key)) acc) ks acc))"
    for ks acc
    by (induction ks arbitrary: acc) (auto simp: distinct_put)
  then show "distinct (map fst c1) \<Longrightarrow> distinct (map fst (mergeComponents c1 c2))"
    unfolding mergeComponents_def by blast
qed

lemma map_of_mergeComponents:
  assumes "section_of c2 key \<noteq> []"
  shows "map_of (mergeComponents c1 c2) key = Some (spread (section_of c1 key) (section_of c2 key))"
proof -
  from assms have "key \<in> set (map fst c2)"
    by (auto simp: section_of_def split: option.splits dest: map_of_SomeD intro: rev_image_eqI)
  moreover have "map_of (mergeComponents c1 c2) key =
      (if key \<in> set (map fst c2) \<and> section_of c2 key \<noteq> []
       then Some (spread (section_of c1 key) (section_of c2 key)) else map_of c1 key)"
    unfolding mergeComponents_def by (rule map_of_merge_fold)
  ultimately show ?thesis using assms by simp
qed

lemma finishDocument_store_wins:
  assumes f: "finishDocument E S = Inr d"
    and inv: "docInv (components_json cs) (document S)"
    and dc: "distinct (map fst cs)" "distinct (map fst (section_of cs key))"
    and g: "map_of (section_of (components (gen S)) key) name = Some generated"
    and dg: "distinct (map fst (section_of (components (gen S)) key))"
    and ex: "{''components'', key, name} \<inter> set (EOAExtensions_values (constants_of E)) = {}"
  shows "\<exists>kept. removeExtensions (EOAExtensions_values (constants_of E)) generated = Inr kept
           \<and> js_path d [''components'', key, name] = kept"
proof -
  let ?exts = "EOAExtensions_values (constants_of E)"
  let ?store = "components (gen S)"
  let ?merged = "mergeComponents cs ?store"
  let ?section = "spread (section_of cs key) (section_of ?store key)"
  from inv obtain kvs where kvs: "document S = JObj kvs" "distinct (map fst kvs)"
    "map_of kvs ''components'' = Some (components_json cs)"
    unfolding docInv_def by blast
  let ?kvs1 = "put ''tags'' (JArr (array_sort (compareName E) (items_of (js_get (document S) ''tags'')))) kvs"
  have c1: "js_get (JObj (put ''tags'' T kvs)) ''components'' = components_json cs" for T
    using kvs(3) by (simp add: map_of_put)
  let ?kvs2 = "put ''components'' (components_json ?merged) ?kvs1"
  from f have r: "removeExtensions ?exts (JObj ?kvs2) = Inr d"
    unfolding finishDocument_def Let_def kvs(1) js_set_def
    by (simp only: entries.simps c1 components_of_json_inverse)
  have d2: "distinct (map fst ?kvs2)" using kvs(2) by (simp add: distinct_put)
  have m2: "map_of ?kvs2 ''components'' = Some (components_json ?merged)" by (simp add: map_of_put)
  from ex have e1: "''components'' \<notin> set ?exts" and e2: "key \<notin> set ?exts" and e3: "name \<notin> set ?exts"
    by auto
  from removeExtensions_lookup [OF r d2 e1 m2] obtain v1 where
    v1: "removeExtensions ?exts (components_json ?merged) = Inr v1" and j1: "js_get d ''components'' = v1"
    by blast
  from g have ne: "section_of ?store key \<noteq> []" by auto
  have dm: "distinct (map fst (map (\<lambda>(k, es). (k, JObj es)) ?merged))"
    using distinct_mergeComponents [OF dc(1), of ?store] by (simp add: case_prod_beta comp_def)
  have mm: "map_of (map (\<lambda>(k, es). (k, JObj es)) ?merged) key = Some (JObj ?section)"
    by (simp add: map_of_components_json map_of_mergeComponents [OF ne])
  from removeExtensions_lookup [OF v1 [unfolded components_json_def] dm e2 mm] obtain v2 where
    v2: "removeExtensions ?exts (JObj ?section) = Inr v2" and j2: "js_get v1 key = v2"
    by blast
  have ds: "distinct (map fst ?section)" using dc(2) by (rule distinct_spread)
  have ms: "map_of ?section name = Some generated"
    using g by (simp add: map_of_spread [OF dg])
  from removeExtensions_lookup [OF v2 ds e3 ms] obtain kept where
    "removeExtensions ?exts generated = Inr kept" "js_get v2 name = kept"
    by blast
  with j1 j2 show ?thesis by simp
qed

lemma generate_returns:
  assumes "generate E base openApiVersion aliasesRef g H = (Inr out, H')"
  shows "\<exists>doc aliases S. seedDocument base openApiVersion = Inr doc
          \<and> foldM_err (aliasStep E) aliases
                \<lparr>document = doc, tagsMap = [], cachePathActions = [],
                 gen = (if truthy (js_get base ''openapi'') then warn ManualVersion g else g)\<rparr>
              = Inr S
          \<and> finishDocument E S = Inr (returned out) \<and> generatorAfter out = gen S"
  using assms unfolding generate_def Let_def
  by (auto simp: bind_err_Inr split: sum.splits option.splits) blast+


subsection \<open>A path and method that is already there\<close>

lemma js_get_entries: "js_get (JObj (entries j)) k = js_get j k"
  by (cases j) auto

lemma js_get_js_set: "js_get (js_set k v j) k' = (if k' = k then v else js_get j k')"
  using js_get_entries [of j k'] by (simp add: js_set_def map_of_put)

lemma addServerToDocument_listed:
  assumes "primitive (js_get server ''url'')"
  shows "list_ex (\<lambda>srv. js_get srv ''url'' = js_get server ''url'')
           (items_of (js_get (addServerToDocument doc server) ''servers''))"
  using assms
  by (auto simp: addServerToDocument_def Let_def js_get_js_set strict_eq_def list_ex_iff)

lemma duplicate_append_aux:
  assumes present: "truthy (js_get currentPath (pa_method pa))"
    and servers: "js_get (js_get currentPath (pa_method pa)) ''servers'' = JArr servers"
    and ne: "servers \<noteq> []"
    and url: "truthy (js_get (serverOf a) ''url'')"
    and new: "\<not> list_ex (\<lambda>srv. strict_eq (js_get srv ''url'')
                 (js_get (serverOf a) ''url''))
               servers"
  shows "\<exists>currentPath'.
      pathActionStep E a openapiPath pa (currentPath, S)
        = Inr (currentPath',
               S\<lparr>document := addServerToDocument (document S)
                    (serverOf a)\<rparr>)
    \<and> js_get (js_get currentPath' (pa_method pa)) ''servers''
        = JArr (servers @ [serverOf a])
    \<and> (\<forall>k. k \<noteq> ''servers'' \<longrightarrow>
           js_get (js_get currentPath' (pa_method pa)) k = js_get (js_get currentPath (pa_method pa)) k)
    \<and> (\<forall>m'. m' \<noteq> pa_method pa \<longrightarrow> js_get currentPath' m' = js_get currentPath m')"
  using assms
  by (simp add: pathActionStep_def Let_def js_get_js_set)

lemma duplicate_skip_aux:
  assumes present: "truthy (js_get currentPath (pa_method pa))"
    and no: "\<not> nonempty (js_get (js_get currentPath (pa_method pa)) ''servers'')
       \<or> \<not> truthy (js_get (serverOf a) ''url'')
       \<or> list_ex (\<lambda>srv. strict_eq (js_get srv ''url'')
                 (js_get (serverOf a) ''url''))
               (items_of (js_get (js_get currentPath (pa_method pa)) ''servers''))"
  shows "pathActionStep E a openapiPath pa (currentPath, S)
        = Inr (currentPath,
               S\<lparr>gen := warn (AlreadyRegister (pa_method pa) openapiPath
                      (case map_of (cachePathActions S) (openapiPath @ ''.'' @ pa_method pa) of
                         Some name \<Rightarrow> to_key (nullish name (JStr ''<unamedAction>''))
                       | None \<Rightarrow> ''<unamedAction>'')) (gen S)\<rparr>)"
  using assms
  by (auto simp: pathActionStep_def Let_def nullish_def split: json.splits option.splits)

lemma first_registration_aux:
  assumes "\<not> truthy (js_get currentPath (pa_method pa))"
    and "pathActionStep E a openapiPath pa (currentPath, S) = Inr (currentPath', S')"
  shows "map_of (cachePathActions S') (openapiPath @ ''.'' @ pa_method pa)
           = Some (js_get (pa_action pa) ''name'')"
proof -
  obtain openApi tags_map where m: "OpenApiMerger_merge E (tagsMap S) a pa = (openApi, tags_map)"
    by force
  show ?thesis
    using assms m
    by (cases "summaryTemplate a")
       (auto simp: pathActionStep_def Let_def map_of_put bind_err_Inr split: if_splits)
qed


subsection \<open>Path parameters\<close>









subsection \<open>The path keys of the returned document\<close>

lemma map_fst_put:
  "map fst (put k v kvs) = (if k \<in> set (map fst kvs) then map fst kvs else map fst kvs @ [k])"
  by (induction kvs) (force split: if_splits)+

lemma js_get_addServer: "k \<noteq> ''servers'' \<Longrightarrow> js_get (addServerToDocument d s) k = js_get d k"
  by (simp add: addServerToDocument_def Let_def js_get_js_set)

lemma js_get_fold_tags:
  "k \<noteq> ''tags'' \<Longrightarrow>
   js_get (fold (\<lambda>tag d. if P tag d then js_set ''tags'' (F tag d) d else d) tags d) k = js_get d k"
  by (induction tags arbitrary: d) (simp_all add: js_get_js_set)

lemma js_get_handleTags:
  "k \<noteq> ''tags'' \<Longrightarrow> js_get (fst (handleTags d tags_map tags)) k = js_get d k"
  unfolding handleTags_def Let_def fst_conv
  by (simp add: js_get_fold_tags js_get_js_set)

lemma pathActionStep_paths:
  assumes "pathActionStep E a openapiPath pa (currentPath, S) = Inr (currentPath', S')"
  shows "js_get (document S') ''paths'' = js_get (document S) ''paths''"
proof -
  obtain openApi tags_map where m: "OpenApiMerger_merge E (tagsMap S) a pa = (openApi, tags_map)"
    by force
  show ?thesis
    using assms m
    by (cases "summaryTemplate a")
       (auto simp: pathActionStep_def Let_def bind_err_Inr js_get_addServer js_get_handleTags
             split: if_splits json.splits)
qed

lemma foldM_pathActionStep_paths:
  "foldM_err (pathActionStep E a openapiPath) pas (currentPath, S) = Inr (currentPath', S') \<Longrightarrow>
   js_get (document S') ''paths'' = js_get (document S) ''paths''"
proof (induction pas arbitrary: currentPath S)
  case Nil
  then show ?case by simp
next
  case (Cons pa pas)
  from Cons.prems(1) obtain cp1 S1 where
    1: "pathActionStep E a openapiPath pa (currentPath, S) = Inr (cp1, S1)" and
    2: "foldM_err (pathActionStep E a openapiPath) pas (cp1, S1) = Inr (currentPath', S')"
    by (auto simp: bind_err_Inr)
  from pathActionStep_paths [OF 1] Cons.IH [OF 2] show ?case by simp
qed

lemma aliasStep_pathKeys:
  assumes "aliasStep E a S = Inr S'"
  shows "pathKeys (document S') =
     (if formatParamUrl (normalizePath E (fullPath a)) \<in> set (pathKeys (document S))
      then pathKeys (document S)
      else pathKeys (document S) @ [formatParamUrl (normalizePath E (fullPath a))])"
proof -
  let ?S0 = "if \<not> truthy (js_get (document S) ''paths'')
             then S\<lparr>document := js_set ''paths'' (JObj []) (document S)\<rparr> else S"
  have 0: "entries (js_get (document ?S0) ''paths'') = entries (js_get (document S) ''paths'')"
    by (cases "js_get (document S) ''paths''") (auto simp: js_get_js_set)
  from assms obtain cp cp1 S1 where
    f: "foldM_err (pathActionStep E a (formatParamUrl (normalizePath E (fullPath a)))) (getPaths a)
          (cp, ?S0) = Inr (cp1, S1)"
    and S': "S' = S1\<lparr>document := js_set ''paths''
                 (js_set (formatParamUrl (normalizePath E (fullPath a))) cp1
                    (js_get (document S1) ''paths'')) (document S1)\<rparr>"
    unfolding aliasStep_def Let_def by (auto simp: bind_err_Inr)
  from foldM_pathActionStep_paths [OF f]
  have 1: "js_get (document S1) ''paths'' = js_get (document ?S0) ''paths''" .
  have "js_get (document S') ''paths''
          = js_set (formatParamUrl (normalizePath E (fullPath a))) cp1
              (js_get (document ?S0) ''paths'')"
    by (simp add: S' js_get_js_set 1)
  then have "entries (js_get (document S') ''paths'')
          = put (formatParamUrl (normalizePath E (fullPath a))) cp1
              (entries (js_get (document S) ''paths''))"
    using 0 by (simp add: js_set_def)
  then show ?thesis
    unfolding pathKeys_def by (simp only: map_fst_put)
qed

lemma foldM_aliasStep_pathKeys:
  "foldM_err (aliasStep E) aliases S = Inr S' \<Longrightarrow>
   pathKeys (document S') =
     fold (\<lambda>k acc. if k \<in> set acc then acc else acc @ [k])
       (map (\<lambda>a. formatParamUrl (normalizePath E (fullPath a))) aliases) (pathKeys (document S))"
proof (induction aliases arbitrary: S)
  case Nil
  then show ?case by simp
next
  case (Cons a aliases)
  from Cons.prems(1) obtain S1 where
    1: "aliasStep E a S = Inr S1" and 2: "foldM_err (aliasStep E) aliases S1 = Inr S'"
    by (auto simp: bind_err_Inr)
  from aliasStep_pathKeys [OF 1] Cons.IH [OF 2] show ?case by simp
qed


lemma keys_fold_put:
  "fst ` set (fold (\<lambda>(k, v) acc. put k v acc) es acc) = fst ` set es \<union> fst ` set acc"
proof (induction es arbitrary: acc)
  case Nil
  then show ?case by simp
next
  case (Cons e es)
  obtain k v where e: "e = (k, v)" by (cases e)
  from Cons [of "put k v acc"] e show ?case by (auto simp: put_keys)
qed

lemma js_get_absent: "k \<notin> fst ` set kvs \<Longrightarrow> js_get (JObj kvs) k = JUndefined"
  by (simp add: map_of_eq_None_iff [THEN iffD2])

lemma seedDocument_paths:
  assumes "seedDocument base openApiVersion = Inr doc"
    and "''paths'' \<notin> fst ` set (Object_entries base)"
  shows "js_get doc ''paths'' = JUndefined"
proof -
  let ?base1 = "if truthy (js_get base ''openapi'') then JObj (del ''openapi'' (entries base))
                else base"
  let ?d = "js_set ''tags'' (JArr [])
              (js_set ''servers'' (JArr [])
                 (JObj (spread [(''openapi'', JStr (openApiVersion @ ''.0''))]
                          (Object_entries ?base1))))"
  from assms(1) obtain cs where c: "cleanComponents (js_get ?base1 ''components'') = Inr cs" and
    doc: "doc = (let doc0 = js_set ''components'' (components_json cs) ?d
                     in if truthy (js_get doc0 ''responses'')
                        then JObj (del ''responses'' (entries doc0)) else doc0)"
    unfolding seedDocument_def Let_def by (auto simp: bind_err_Inr split: if_splits)
  have "''paths'' \<notin> fst ` set (Object_entries ?base1)"
    using assms(2) by (cases base) (auto simp: del_def)
  then have "''paths'' \<notin> fst ` set (spread [(''openapi'', JStr (openApiVersion @ ''.0''))]
                          (Object_entries ?base1))"
    unfolding spread_def keys_fold_put by simp
  then have "js_get (JObj (spread [(''openapi'', JStr (openApiVersion @ ''.0''))]
                          (Object_entries ?base1))) ''paths'' = JUndefined"
    by (rule js_get_absent)
  then have "js_get (js_set ''components'' (components_json cs) ?d) ''paths'' = JUndefined"
    by (simp add: js_get_js_set)
  then show ?thesis
    unfolding doc Let_def by (simp add: map_of_del js_set_def)
qed

lemma map_fst_fold_del:
  "map fst (fold del exts kvs) = filter (\<lambda>k. k \<notin> set exts) (map fst kvs)"
proof (induction exts arbitrary: kvs)
  case Nil
  then show ?case by simp
next
  case (Cons x exts)
  have "map fst (del x kvs) = filter (\<lambda>k. k \<noteq> x) (map fst kvs)"
    unfolding del_def by (induction kvs) auto
  with Cons [of "del x kvs"] show ?case by (auto intro: filter_cong)
qed

lemma fold_put_distinct:
  "distinct (map fst (acc @ es)) \<Longrightarrow> fold (\<lambda>(k, v) acc. put k v acc) es acc = acc @ es"
proof (induction es arbitrary: acc)
  case Nil
  then show ?case by simp
next
  case (Cons e es)
  obtain k v where e: "e = (k, v)" by (cases e)
  from Cons.prems e have "k \<notin> fst ` set acc" by auto
  then have p: "put k v acc = acc @ [(k, v)]" by (induction acc) auto
  from Cons.prems e have "distinct (map fst ((acc @ [(k, v)]) @ es))" by simp
  from Cons.IH [OF this] p e show ?case by simp
qed

lemma fromEntries_distinct: "distinct (map fst es) \<Longrightarrow> fromEntries es = es"
  using fold_put_distinct [of "[]" es] by (simp add: fromEntries_def)

lemma removeExtensions_keys:
  assumes "removeExtensions exts P = Inr P'" and "distinct (map fst (entries P))"
  shows "map fst (entries P') = filter (\<lambda>k. k \<notin> set exts) (map fst (entries P))"
proof (cases P)
  case (JObj kvs)
  with assms(1) obtain es where es: "removeExtensions_entries exts (fold del exts kvs) = Inr es"
    and P': "P' = JObj (fromEntries es)"
    by (auto split: sum.splits)
  from removeExtensions_entries_lookup [OF es, of undefined undefined]
  have ks: "map fst es = map fst (fold del exts kvs)" by simp
  with assms(2) JObj have "distinct (map fst es)" by (simp add: distinct_fold_del)
  with ks P' JObj show ?thesis by (simp add: fromEntries_distinct map_fst_fold_del)
next
  case (JArr xs)
  with assms(1) show ?thesis by (auto split: sum.splits)
qed (use assms(1) in auto)

lemma removeExtensions_absent:
  assumes "removeExtensions exts (JObj kvs) = Inr d" and "map_of kvs k = None"
  shows "js_get d k = JUndefined"
proof -
  from assms(1) obtain es where es: "removeExtensions_entries exts (fold del exts kvs) = Inr es"
    and d: "d = JObj (fromEntries es)"
    by (auto split: sum.splits)
  from removeExtensions_entries_lookup [OF es, of undefined undefined]
  have "map fst es = map fst (fold del exts kvs)" by simp
  then have "fst ` set es \<subseteq> fst ` set kvs"
    by (metis (no_types, lifting) filter_is_subset list.set_map map_fst_fold_del)
  moreover from assms(2) have "k \<notin> fst ` set kvs" by (simp add: map_of_eq_None_iff)
  ultimately have "k \<notin> fst ` set (fromEntries es)"
    unfolding fromEntries_def keys_fold_put by auto
  from js_get_absent [OF this] d show ?thesis by simp
qed

lemma finishDocument_pathKeys:
  assumes f: "finishDocument E S = Inr d"
    and inv: "docInv C (document S)"
    and dk: "distinct (pathKeys (document S))"
    and ex: "''paths'' \<notin> set (EOAExtensions_values (constants_of E))"
  shows "pathKeys d = filter (\<lambda>k. k \<notin> set (EOAExtensions_values (constants_of E)))
                        (pathKeys (document S))"
proof -
  let ?exts = "EOAExtensions_values (constants_of E)"
  from inv obtain kvs where kvs: "document S = JObj kvs" "distinct (map fst kvs)"
    unfolding docInv_def by blast
  from f obtain T M where r: "removeExtensions ?exts (JObj (put ''components'' M (put ''tags'' T kvs))) = Inr d"
    unfolding finishDocument_def Let_def kvs(1) js_set_def by (simp only: entries.simps)
  let ?kvs2 = "put ''components'' M (put ''tags'' T kvs)"
  have d2: "distinct (map fst ?kvs2)" using kvs(2) by (simp add: distinct_put)
  have m2: "map_of ?kvs2 ''paths'' = map_of kvs ''paths''" by (simp add: map_of_put)
  show ?thesis
  proof (cases "map_of kvs ''paths''")
    case None
    with removeExtensions_absent [OF r] m2 have "js_get d ''paths'' = JUndefined" by simp
    with None kvs(1) show ?thesis by (simp add: pathKeys_def)
  next
    case (Some P)
    with m2 have "map_of ?kvs2 ''paths'' = Some P" by simp
    from removeExtensions_lookup [OF r d2 ex this] obtain P' where
      1: "removeExtensions ?exts P = Inr P'" and 2: "js_get d ''paths'' = P'"
      by blast
    from Some kvs(1) have p: "js_get (document S) ''paths'' = P" by simp
    with dk have "distinct (map fst (entries P))" by (simp add: pathKeys_def)
    from removeExtensions_keys [OF 1 this] 2 p show ?thesis by (simp add: pathKeys_def)
  qed
qed

lemma distinct_uniq_fold:
  "distinct acc \<Longrightarrow> distinct (fold (\<lambda>k acc. if k \<in> set acc then acc else acc @ [k]) ks acc)"
  by (induction ks arbitrary: acc) auto

lemma generate_returns_sorted:
  assumes "generate E base openApiVersion aliasesRef g H = (Inr out, H')"
    and "H aliasesRef = Some aliases"
  shows "\<exists>doc S. seedDocument base openApiVersion = Inr doc
          \<and> foldM_err (aliasStep E) (array_sort (compareFullPath E) aliases)
                \<lparr>document = doc, tagsMap = [], cachePathActions = [],
                 gen = (if truthy (js_get base ''openapi'') then warn ManualVersion g else g)\<rparr>
              = Inr S
          \<and> finishDocument E S = Inr (returned out)"
  using assms unfolding generate_def Let_def
  by (auto simp: bind_err_Inr split: sum.splits option.splits)

lemma map_sort_key: "map f (sort_key f xs) = sort (map f xs)"
  by (rule properties_for_sort [symmetric]) simp_all

section \<open>The claims\<close>

text \<open>
  Claim C9. The array mapper tests the exact length by truthiness (\<open>if (rule.length)\<close>),
  so an exact length of 0 counts as not set: the rule below asks for exactly 0 items, and
  the fragment takes \<open>minItems\<close> and \<open>maxItems\<close> from \<open>min\<close> and \<open>max\<close> instead.
\<close>

theorem array_mapper_length_zero:
  "array_mapper conv (JObj [(''type'', JStr ''array''), (''length'', JNum 0),
                            (''min'', JNum 1), (''max'', JNum 3)])
   = Inr (JObj [(''type'', JStr ''array''), (''examples'', JUndefined),
                (''uniqueItems'', JUndefined), (''default'', JUndefined),
                (''items'', JObj []), (''maxItems'', JNum 3), (''minItems'', JNum 1)])"
  by (simp add: array_mapper_def nullish_def js_set_def)

text \<open>
  For every other exact length the mapper does what the claim says.
\<close>

lemma array_mapper_exact_length:
  assumes "truthy (js_get rule ''length'')" and "array_mapper conv rule = Inr schema"
  shows "js_get schema ''minItems'' = js_get rule ''length''
       \<and> js_get schema ''maxItems'' = js_get rule ''length''"
  using assms
  by (auto simp: array_mapper_def js_set_def Let_def map_of_put split: sum.splits if_splits)

text \<open>
  Claim C6. Whatever \<open>generate\<close> returns went through \<open>removeExtensions\<close> last, so no
  object of the returned tree, at any depth and inside arrays, has one of the keys of
  \<open>EOAExtensions\<close>.
\<close>

theorem generate_marker_free:
  assumes "fst (generate E base openApiVersion aliasesRef g H) = Inr out"
  shows "marker_free (EOAExtensions_values (constants_of E)) (returned out)"
proof -
  from assms obtain S where d: "finishDocument E S = Inr (returned out)"
    unfolding generate_def Let_def
    by (auto simp: bind_err_Inr split: sum.splits option.splits)
  then show ?thesis
    unfolding finishDocument_def Let_def using removeExtensions_marker_free(1) by blast
qed

text \<open>
  Claim C6 on an example: \<open>GET /users/{id}\<close> with an optional query field, whose fragment
  carries the optional marker until the final sweep.
\<close>

theorem generate_marker_free_witness:
  "\<exists>out. fst (generate sampleExternals (JObj []) ''3.1'' 0 newGenerator
        [0 \<mapsto> [sampleAlias ''get'' ''/users/{id}'' ''users.get''
           (JObj [(''name'', JObj [(''type'', JStr ''string''), (''optional'', JBool True)])])]])
        = Inr out
     \<and> marker_free (EOAExtensions_values (constants_of sampleExternals)) (returned out)"
proof -
  have "\<not> isl (fst (generate sampleExternals (JObj []) ''3.1'' 0 newGenerator
        [0 \<mapsto> [sampleAlias ''get'' ''/users/{id}'' ''users.get''
           (JObj [(''name'', JObj [(''type'', JStr ''string''), (''optional'', JBool True)])])]]))"
    by code_simp
  then obtain out where "fst (generate sampleExternals (JObj []) ''3.1'' 0 newGenerator
        [0 \<mapsto> [sampleAlias ''get'' ''/users/{id}'' ''users.get''
           (JObj [(''name'', JObj [(''type'', JStr ''string''), (''optional'', JBool True)])])]])
        = Inr out"
    by (cases "fst (generate sampleExternals (JObj []) ''3.1'' 0 newGenerator
        [0 \<mapsto> [sampleAlias ''get'' ''/users/{id}'' ''users.get''
           (JObj [(''name'', JObj [(''type'', JStr ''string''), (''optional'', JBool True)])])]])") auto
  with generate_marker_free [OF this] show ?thesis by blast
qed

text \<open>
  Claim C3, as amended. For a multipart route without an explicit request body
  (\<open>alias.openapi.requestBody\<close>): when the rule schema of the bound action is a root
  schema (\<open>$$root: true\<close>), \<open>extractParameters\<close> throws; when it is an object-shaped
  schema whose fields the converter accepts, \<open>extractParameters\<close> returns, the schema of
  the request body is the \<open>allOf\<close> of the file-field object and the reference to the
  component named after the action, and that component holds the fields of the action
  schema that are not path parameters.
\<close>

theorem multipart_request_body:
  assumes "alias_type a = JStr ''multipart''"
    and "\<not> truthy (js_get (openapi a) ''requestBody'')"
  shows "(js_path (actionSchema a) [''params'', ''$$root''] = JBool True \<longrightarrow>
            extractParameters K conv m path a g
              = Inl (Error ''$$root parameters is not supported on multipart''))
       \<and> (js_path (actionSchema a) [''params'', ''$$root''] \<noteq> JBool True
            \<and> action a = JStr name \<and> name \<noteq> []
            \<and> truthy (js_get (actionSchema a) ''params'')
            \<and> map_of (BODY_PARSERS_CONTENT_TYPE K) ''multipart'' = Some (t # ts)
            \<and> getSchemaObjectFromSchema conv (js_get (actionSchema a) ''params'') = Inr rootRules
            \<and> wellFormedFields
                 (bodyFields (map (\<lambda>p. js_get p ''name'') (pathParametersOf a path)) rootRules) \<longrightarrow>
          (\<exists>extracted g' properties.
              extractParameters K conv m path a g = Inr (extracted, g')
            \<and> requestBody extracted = JObj
                 [(''required'', JBool True),
                  (''content'', JObj [(t, JObj [(''schema'', JObj [(''allOf'',
                      JArr [fileObjectOf K a,
                            JObj [(''$ref'', JStr (''#/components/schemas/'' @ name))]])])])])]
            \<and> map fst properties
                 = map fst (bodyFields (map (\<lambda>p. js_get p ''name'') (pathParametersOf a path)) rootRules)
            \<and> schemas g' name = Some (JObj
                 [(''type'', JStr ''object''),
                  (''properties'', JObj (fromEntries properties)),
                  (''required'',
                     if requiredFields K (bodyFields (map (\<lambda>p. js_get p ''name'') (pathParametersOf a path)) rootRules) \<noteq> []
                     then JArr (map JStr (requiredFields K
                             (bodyFields (map (\<lambda>p. js_get p ''name'') (pathParametersOf a path)) rootRules)))
                     else JUndefined),
                  (''default'', JUndefined)])))"
  using multipart_root_aux [OF assms] multipart_object_aux [OF assms] by blast

text \<open>
  The amended claim on two examples: the upload route with a root string schema, and with
  the object schema \<open>{title: string}\<close>.
\<close>

theorem multipart_request_body_witness:
  "extractParameters sampleConstants sampleConverter ''post'' ''/files''
      (uploadAlias (JObj [(''$$root'', JBool True), (''type'', JStr ''string'')]) JUndefined) newGenerator
     = Inl (Error ''$$root parameters is not supported on multipart'')
   \<and> (\<exists>extracted g'.
        extractParameters sampleConstants sampleConverter ''post'' ''/files''
          (uploadAlias (JObj [(''title'', JObj [(''type'', JStr ''string'')])]) JUndefined) newGenerator
          = Inr (extracted, g')
      \<and> js_path (requestBody extracted) [''content'', ''multipart/form-data'', ''schema'', ''allOf'']
          = JArr [fileObjectOf sampleConstants
                    (uploadAlias (JObj [(''title'', JObj [(''type'', JStr ''string'')])]) JUndefined),
                  JObj [(''$ref'', JStr ''#/components/schemas/files.upload'')]]
      \<and> registered g' ''files.upload'')"
proof -
  let ?r = "uploadAlias (JObj [(''$$root'', JBool True), (''type'', JStr ''string'')]) JUndefined"
  let ?a = "uploadAlias (JObj [(''title'', JObj [(''type'', JStr ''string'')])]) JUndefined"
  have r1: "alias_type ?r = JStr ''multipart''" by code_simp
  have r2: "\<not> truthy (js_get (openapi ?r) ''requestBody'')" by code_simp
  have r3: "js_path (actionSchema ?r) [''params'', ''$$root''] = JBool True" by code_simp
  have a1: "alias_type ?a = JStr ''multipart''" by code_simp
  have a2: "\<not> truthy (js_get (openapi ?a) ''requestBody'')" by code_simp
  have a3: "js_path (actionSchema ?a) [''params'', ''$$root''] \<noteq> JBool True" by code_simp
  have a4: "action ?a = JStr ''files.upload''" by code_simp
  have a5: "truthy (js_get (actionSchema ?a) ''params'')" by code_simp
  have a6: "map_of (BODY_PARSERS_CONTENT_TYPE sampleConstants) ''multipart''
              = Some (''multipart/form-data'' # [])" by code_simp
  have a7: "getSchemaObjectFromSchema sampleConverter (js_get (actionSchema ?a) ''params'')
      = Inr [(''title'', JObj [(''default'', JUndefined), (''type'', JStr ''string''),
                 (''maxLength'', JUndefined), (''minLength'', JUndefined), (''enum'', JUndefined)])]"
    by code_simp
  have a8: "wellFormedFields (bodyFields (map (\<lambda>p. js_get p ''name'') (pathParametersOf ?a ''/files''))
      [(''title'', JObj [(''default'', JUndefined), (''type'', JStr ''string''),
                 (''maxLength'', JUndefined), (''minLength'', JUndefined), (''enum'', JUndefined)])])"
    by code_simp
  have n: "''files.upload'' \<noteq> []" by simp
  from multipart_request_body [where a = "?r" and K = sampleConstants and conv = sampleConverter
         and m = "''post''" and path = "''/files''" and g = newGenerator, OF r1 r2] r3
  have 1: "extractParameters sampleConstants sampleConverter ''post'' ''/files'' ?r newGenerator
     = Inl (Error ''$$root parameters is not supported on multipart'')" by blast
  from multipart_request_body [where a = "?a" and K = sampleConstants and conv = sampleConverter
         and m = "''post''" and path = "''/files''" and g = newGenerator
         and name = "''files.upload''" and t = "''multipart/form-data''" and ts = "[]",
         OF a1 a2] a3 a4 a5 a6 a7 a8 n
  obtain extracted g' properties where
      "extractParameters sampleConstants sampleConverter ''post'' ''/files'' ?a newGenerator = Inr (extracted, g')"
      "requestBody extracted = JObj
                 [(''required'', JBool True),
                  (''content'', JObj [(''multipart/form-data'', JObj [(''schema'', JObj [(''allOf'',
                      JArr [fileObjectOf sampleConstants ?a,
                            JObj [(''$ref'', JStr (''#/components/schemas/'' @ ''files.upload''))]])])])])]"
      "registered g' ''files.upload''"
    by (fastforce simp: registered_def)
  with 1 show ?thesis by auto
qed

text \<open>
  Claim C3 as stated fails when the route carries an explicit request body: it is returned
  as it is, before the rule schema is looked at, and nothing is thrown for a root schema.
\<close>

theorem multipart_override_counterexample:
  "extractParameters sampleConstants sampleConverter ''post'' ''/files''
      (uploadAlias (JObj [(''$$root'', JBool True), (''type'', JStr ''string'')])
                   (JObj [(''requestBody'', JObj [(''description'', JStr ''custom'')])]))
      newGenerator
   = Inr (\<lparr>parameters = [],
           requestBody = JObj [(''description'', JStr ''custom'')]\<rparr>, newGenerator)"
  by code_simp

text \<open>
  Claim C8. \<open>extractParameters\<close> reads the flag back from the component it has just
  registered: it resolves the reference \<open>#/components/schemas/<name>\<close> with
  \<open>getComponentByRef\<close>, which splits it at every \<open>/\<close>. For an action name without \<open>/\<close>
  the component found is the one registered (\<open>body_required_aux\<close>). For a name with
  \<open>/\<close> it is not: after a route bound to \<open>a\<close> with a field named \<open>properties\<close>, the route
  bound to \<open>a/properties\<close> with the required field \<open>foo\<close> registers a component whose
  required list is \<open>[foo]\<close>, its reference is resolved to the member \<open>properties\<close> of the
  component \<open>a\<close>, and its request body is emitted with \<open>required: false\<close>.
\<close>

theorem body_required_slash_in_name:
  "(case extractParameters sampleConstants sampleConverter ''post'' ''/a'' fieldNamedProperties newGenerator of
      Inl e \<Rightarrow> None
    | Inr (first, g1) \<Rightarrow>
        (case extractParameters sampleConstants sampleConverter ''post'' ''/b'' slashInName g1 of
           Inl e \<Rightarrow> None
         | Inr (second, g2) \<Rightarrow>
             Some (map_option (\<lambda>component. js_get component ''required'') (schemas g2 ''a/properties''),
                   js_get (requestBody second) ''required'')))
   = Some (Some (JArr [JStr ''foo'']), JBool False)"
  by code_simp

text \<open>
  Claim C10. \<open>generate\<close> sorts the array behind the reference it is given
  (\<open>aliases.sort(getAlphabeticSorter('fullPath'))\<close>): when it returns, the caller's
  reference holds the same routes reordered, and no other array has changed. With a
  comparator that orders by \<open>fullPath\<close> ascending (\<open>compare(a, b) \<le> 0\<close> exactly when
  \<open>a.fullPath \<le> b.fullPath\<close>), the array is the stable sort of the input by \<open>fullPath\<close>,
  ascending.
\<close>

theorem generate_sorts_aliases_in_place:
  assumes "generate E base openApiVersion aliasesRef g H = (Inr out, H')"
    and "H aliasesRef = Some aliases"
    and "\<forall>a b. (compareFullPath E a b \<le> 0) = (fullPath a \<le> fullPath b)"
  shows "\<exists>after. H' aliasesRef = Some after
           \<and> sorted (map fullPath after) \<and> mset after = mset aliases
           \<and> after = sort_key fullPath aliases
           \<and> (\<forall>r. r \<noteq> aliasesRef \<longrightarrow> H' r = H r)"
proof -
  from generate_heap [OF assms(1)] assms(2)
  have "H' = H(aliasesRef \<mapsto> array_sort (compareFullPath E) aliases)" by auto
  moreover from assms(3)
  have "array_sort (compareFullPath E) aliases = sort_key fullPath aliases"
    by (intro array_sort_sort_key) simp
  ultimately show ?thesis by simp
qed

text \<open>
  Claim C10 on an example: \<open>/users\<close> registered before \<open>/articles\<close>.
\<close>

theorem generate_sorts_aliases_in_place_witness:
  "\<exists>out H'. generate sampleExternals (JObj []) ''3.1'' 0 newGenerator [0 \<mapsto> unsortedRoutes]
               = (Inr out, H')
     \<and> map_option (map fullPath) (H' 0) = Some [''/articles'', ''/users'']"
proof -
  have "\<not> isl (fst (generate sampleExternals (JObj []) ''3.1'' 0 newGenerator [0 \<mapsto> unsortedRoutes]))"
    by code_simp
  then obtain out H' where r:
    "generate sampleExternals (JObj []) ''3.1'' 0 newGenerator [0 \<mapsto> unsortedRoutes] = (Inr out, H')"
    by (metis isl_def prod.collapse sum.collapse(2))
  have c: "\<forall>a b. (compareFullPath sampleExternals a b \<le> 0) = (fullPath a \<le> fullPath b)"
    by (auto simp: sampleExternals_def)
  have s: "map fullPath (sort_key fullPath unsortedRoutes) = [''/articles'', ''/users'']"
    by code_simp
  from generate_sorts_aliases_in_place [OF r _ c, of unsortedRoutes] r s show ?thesis
    by auto
qed




text \<open>
  Claim C1, as amended. \<open>generate\<close> ends with
  \<open>mergeComponents(document.components, this.components)\<close> and \<open>removeExtensions\<close>: every
  entry that the generator's store holds when \<open>generate\<close> returns is in the returned
  document under the same section and name (cleared of the marker keys), whatever the
  caller's document declared under that name. The names of a section are the keys of an
  object, each there once; the marker keys are deleted from every object, so the three
  keys on the way are assumed not to be marker keys.
\<close>

theorem generate_store_wins:
  assumes "generate E base openApiVersion aliasesRef g H = (Inr out, H')"
    and "map_of (section_of (components (generatorAfter out)) key) name = Some generated"
    and "distinct (map fst (section_of (components (generatorAfter out)) key))"
    and "{''components'', key, name} \<inter> set (EOAExtensions_values (constants_of E)) = {}"
  shows "\<exists>kept. removeExtensions (EOAExtensions_values (constants_of E)) generated = Inr kept
           \<and> js_path (returned out) [''components'', key, name] = kept"
proof -
  from generate_returns [OF assms(1)] obtain doc aliases S where
    seed: "seedDocument base openApiVersion = Inr doc" and
    loop: "foldM_err (aliasStep E) aliases
                \<lparr>document = doc, tagsMap = [], cachePathActions = [],
                 gen = (if truthy (js_get base ''openapi'') then warn ManualVersion g else g)\<rparr>
              = Inr S" and
    fin: "finishDocument E S = Inr (returned out)" and after: "generatorAfter out = gen S"
    by blast
  from seedDocument_docInv [OF seed] obtain cs where
    inv: "docInv (components_json cs) doc" and dc: "distinct (map fst cs)"
    "distinct (map fst (section_of cs key))"
    by blast
  from foldM_aliasStep_docInv [OF loop] inv have "docInv (components_json cs) (document S)"
    by simp
  from finishDocument_store_wins [OF fin this dc assms(2,3) [unfolded after] assms(4)]
  show ?thesis .
qed

text \<open>
  The amended claim on an example: the caller's document declares the schema A as a
  string, the store holds the object schema A, and there is no route.
\<close>

theorem generate_store_wins_witness:
  "\<exists>out H'. generate sampleExternals documentWithA ''3.1'' 0 storeWithA [0 \<mapsto> []] = (Inr out, H')
     \<and> js_path (returned out) [''components'', ''schemas'', ''A''] = JObj [(''type'', JStr ''object'')]"
proof -
  have "\<not> isl (fst (generate sampleExternals documentWithA ''3.1'' 0 storeWithA [0 \<mapsto> []]))"
    by code_simp
  then obtain out H' where r:
    "generate sampleExternals documentWithA ''3.1'' 0 storeWithA [0 \<mapsto> []] = (Inr out, H')"
    by (metis isl_def prod.collapse sum.collapse(2))
  have "(case fst (generate sampleExternals documentWithA ''3.1'' 0 storeWithA [0 \<mapsto> []]) of
           Inr out \<Rightarrow> generatorAfter out = storeWithA | Inl e \<Rightarrow> False)"
    by code_simp
  with r have a: "generatorAfter out = storeWithA" by simp
  have m: "map_of (section_of (components storeWithA) ''schemas'') ''A''
             = Some (JObj [(''type'', JStr ''object'')])"
    by code_simp
  have d: "distinct (map fst (section_of (components storeWithA) ''schemas''))" by code_simp
  have e: "{''components'', ''schemas'', ''A''}
             \<inter> set (EOAExtensions_values (constants_of sampleExternals)) = {}"
    by code_simp
  have k: "removeExtensions (EOAExtensions_values (constants_of sampleExternals))
             (JObj [(''type'', JStr ''object'')]) = Inr (JObj [(''type'', JStr ''object'')])"
    by code_simp
  from generate_store_wins [OF r m [folded a] d [folded a] e] k r show ?thesis by auto
qed

text \<open>
  Claim C1 as stated (the document's entry takes precedence) fails. On a new generator,
  \<open>createRequestBodyFromParams\<close> registers the object schema A; \<open>generate\<close> is then called
  with a document that declares A as a string and with no route, so \<open>OpenApiMerger\<close> is
  never called. The returned document holds the generated object schema.
\<close>

theorem generate_components_counterexample:
  "(case createRequestBodyFromParams sampleConstants sampleConverter ''A''
           (JObj [(''x'', JObj [(''type'', JStr ''string'')])]) [] newGenerator of
      Inl e \<Rightarrow> JUndefined
    | Inr (ref, g1) \<Rightarrow>
        (case fst (generate sampleExternals documentWithA ''3.1'' 0 g1 [0 \<mapsto> []]) of
           Inl e \<Rightarrow> JUndefined
         | Inr out \<Rightarrow> js_path (returned out) [''components'', ''schemas'', ''A'', ''type'']))
   = JStr ''object''"
  by code_simp

text \<open>
  Claim C2, as amended. One method of one route (the callback of
  \<open>alias.getPaths().forEach\<close>), when the path item already has an operation for the
  method:
  \<^item> if that operation lists at least one server, the service of the route declares a
    server with a URL, and no server of the operation has that URL, then the server is
    appended to the servers of the operation, \<open>addServerToDocument\<close> adds it to the
    servers of the document, nothing else changes and nothing is logged;
  \<^item> otherwise the path item and the document are left as they are, and one warning is
    logged that names the action recorded for this path and method (or
    \<open><unamedAction>\<close>).

  The action recorded is the one of the first registration: when the path item has no
  operation for the method and the callback returns, it has recorded the name of its
  action under this path and method. (The method is an HTTP method by type, none of which
  is a name that a path item would read through its prototype.)
\<close>

theorem duplicate_path_method:
  "(truthy (js_get currentPath (pa_method pa))
      \<and> js_get (js_get currentPath (pa_method pa)) ''servers'' = JArr servers \<and> servers \<noteq> []
      \<and> truthy (js_get (serverOf a) ''url'')
      \<and> \<not> list_ex (\<lambda>srv. strict_eq (js_get srv ''url'') (js_get (serverOf a) ''url'')) servers
    \<longrightarrow> (\<exists>currentPath'.
          pathActionStep E a openapiPath pa (currentPath, S)
            = Inr (currentPath', S\<lparr>document := addServerToDocument (document S) (serverOf a)\<rparr>)
        \<and> js_get (js_get currentPath' (pa_method pa)) ''servers'' = JArr (servers @ [serverOf a])
        \<and> (\<forall>k. k \<noteq> ''servers'' \<longrightarrow>
               js_get (js_get currentPath' (pa_method pa)) k
                 = js_get (js_get currentPath (pa_method pa)) k)
        \<and> (\<forall>m'. m' \<noteq> pa_method pa \<longrightarrow> js_get currentPath' m' = js_get currentPath m')))
 \<and> (truthy (js_get currentPath (pa_method pa))
      \<and> (\<not> nonempty (js_get (js_get currentPath (pa_method pa)) ''servers'')
         \<or> \<not> truthy (js_get (serverOf a) ''url'')
         \<or> list_ex (\<lambda>srv. strict_eq (js_get srv ''url'') (js_get (serverOf a) ''url''))
               (items_of (js_get (js_get currentPath (pa_method pa)) ''servers'')))
    \<longrightarrow> pathActionStep E a openapiPath pa (currentPath, S)
          = Inr (currentPath,
                 S\<lparr>gen := warn (AlreadyRegister (pa_method pa) openapiPath
                        (case map_of (cachePathActions S) (openapiPath @ ''.'' @ pa_method pa) of
                           Some name \<Rightarrow> to_key (nullish name (JStr ''<unamedAction>''))
                         | None \<Rightarrow> ''<unamedAction>'')) (gen S)\<rparr>))
 \<and> (\<not> truthy (js_get currentPath (pa_method pa))
      \<and> pa_method pa \<notin> set objectPrototypeNames
      \<and> pathActionStep E a openapiPath pa (currentPath, S) = Inr (currentPath', S')
    \<longrightarrow> map_of (cachePathActions S') (openapiPath @ ''.'' @ pa_method pa)
          = Some (js_get (pa_action pa) ''name''))"
  using duplicate_append_aux [of currentPath pa servers a E openapiPath S]
    duplicate_skip_aux [of currentPath pa a E openapiPath S]
    first_registration_aux [of currentPath pa E a openapiPath S currentPath' S']
  by blast

text \<open>
  The amended claim on three examples: a route with the server \<open>http://b\<close> on an
  operation that lists \<open>http://a\<close>; a route without server on the same operation; a
  first registration.
\<close>

theorem duplicate_path_method_witness:
  "(\<exists>currentPath'.
      pathActionStep sampleExternals (withServer ''http://b'' listUsers) ''/users''
          \<lparr>pa_method = ''get'', pa_action = JObj [(''name'', JStr ''users.list'')]\<rparr>
          (servedPath, emptyAssembly)
        = Inr (currentPath', emptyAssembly\<lparr>document :=
                 addServerToDocument (document emptyAssembly) (JObj [(''url'', JStr ''http://b'')])\<rparr>)
    \<and> js_get (js_get currentPath' ''get'') ''servers''
        = JArr [JObj [(''url'', JStr ''http://a'')], JObj [(''url'', JStr ''http://b'')]])
 \<and> pathActionStep sampleExternals listUsers ''/users''
          \<lparr>pa_method = ''get'', pa_action = JObj [(''name'', JStr ''users.list'')]\<rparr>
          (servedPath, emptyAssembly)
        = Inr (servedPath, emptyAssembly\<lparr>gen :=
                 warn (AlreadyRegister ''get'' ''/users'' ''<unamedAction>'') newGenerator\<rparr>)
 \<and> (\<exists>currentPath' S'.
      pathActionStep sampleExternals listUsers ''/users''
          \<lparr>pa_method = ''get'', pa_action = JObj [(''name'', JStr ''users.list'')]\<rparr>
          (JObj [], emptyAssembly)
        = Inr (currentPath', S')
    \<and> map_of (cachePathActions S') ''/users.get'' = Some (JStr ''users.list''))"
proof -
  let ?pa = "\<lparr>pa_method = ''get'', pa_action = JObj [(''name'', JStr ''users.list'')]\<rparr>"
  have p: "truthy (js_get servedPath (pa_method ?pa))" by code_simp
  have s: "js_get (js_get servedPath (pa_method ?pa)) ''servers'' = JArr [JObj [(''url'', JStr ''http://a'')]]"
    by code_simp
  have sv: "serverOf (withServer ''http://b'' listUsers) = JObj [(''url'', JStr ''http://b'')]"
    by code_simp
  have u: "truthy (js_get (serverOf (withServer ''http://b'' listUsers)) ''url'')" by code_simp
  have n: "\<not> list_ex (\<lambda>srv. strict_eq (js_get srv ''url'')
               (js_get (serverOf (withServer ''http://b'' listUsers)) ''url''))
             [JObj [(''url'', JStr ''http://a'')]]" by code_simp
  have 1: "\<exists>currentPath'.
      pathActionStep sampleExternals (withServer ''http://b'' listUsers) ''/users'' ?pa
          (servedPath, emptyAssembly)
        = Inr (currentPath', emptyAssembly\<lparr>document :=
                 addServerToDocument (document emptyAssembly) (JObj [(''url'', JStr ''http://b'')])\<rparr>)
    \<and> js_get (js_get currentPath' ''get'') ''servers''
        = JArr [JObj [(''url'', JStr ''http://a'')], JObj [(''url'', JStr ''http://b'')]]"
    using duplicate_path_method [where currentPath = servedPath and pa = "?pa"
        and servers = "[JObj [(''url'', JStr ''http://a'')]]" and a = "withServer ''http://b'' listUsers"
        and E = sampleExternals and openapiPath = "''/users''" and S = emptyAssembly,
        THEN conjunct1, rule_format, OF conjI [OF p conjI [OF s conjI [OF _ conjI [OF u n]]]]]
    by (auto simp: sv)
  have u0: "\<not> truthy (js_get (serverOf listUsers) ''url'')" by code_simp
  have c0: "map_of (cachePathActions emptyAssembly) (''/users'' @ ''.'' @ pa_method ?pa) = None"
    by code_simp
  have g0: "gen emptyAssembly = newGenerator" by code_simp
  have 2: "pathActionStep sampleExternals listUsers ''/users'' ?pa (servedPath, emptyAssembly)
        = Inr (servedPath, emptyAssembly\<lparr>gen :=
                 warn (AlreadyRegister ''get'' ''/users'' ''<unamedAction>'') newGenerator\<rparr>)"
    using duplicate_path_method [where currentPath = servedPath and pa = "?pa"
        and a = listUsers and E = sampleExternals and openapiPath = "''/users''"
        and S = emptyAssembly, THEN conjunct2, THEN conjunct1, rule_format,
        OF conjI [OF p disjI2 [OF disjI1 [OF u0]]]] c0 g0
    by simp
  have f: "\<not> truthy (js_get (JObj []) (pa_method ?pa))" by simp
  have hm: "pa_method ?pa \<notin> set objectPrototypeNames" by code_simp
  have "\<not> isl (pathActionStep sampleExternals listUsers ''/users'' ?pa (JObj [], emptyAssembly))"
    by code_simp
  then obtain currentPath' S' where r:
    "pathActionStep sampleExternals listUsers ''/users'' ?pa (JObj [], emptyAssembly)
       = Inr (currentPath', S')"
    by (cases "pathActionStep sampleExternals listUsers ''/users'' ?pa (JObj [], emptyAssembly)") auto
  have 3: "map_of (cachePathActions S') ''/users.get'' = Some (JStr ''users.list'')"
    using duplicate_path_method [where currentPath = "JObj []" and pa = "?pa"
        and a = listUsers and E = sampleExternals and openapiPath = "''/users''"
        and S = emptyAssembly and currentPath' = currentPath' and S' = S',
        THEN conjunct2, THEN conjunct2, rule_format, OF conjI [OF f conjI [OF hm r]]]
    by simp
  from 1 2 3 r show ?thesis by blast
qed

text \<open>
  Claim C2 as stated fails in both directions. First run: \<open>GET /users\<close> is registered by
  a route without server, then by the same route with the server \<open>http://b\<close>: the only
  difference is an additional server, yet the server is appended nowhere and a warning
  is logged, because the operation lists no server so far. Second run: \<open>GET /users\<close> is
  registered by \<open>users.list\<close> with the server \<open>http://a\<close>, then by another action,
  \<open>users.search\<close>, which has a query field and the server \<open>http://b\<close>: the server is
  appended and nothing is logged, although the routes differ in more than the server.
\<close>

theorem duplicate_path_method_counterexample:
  "(case fst (generate sampleExternals (JObj []) ''3.1'' 0 newGenerator
                [0 \<mapsto> [listUsers, withServer ''http://b'' listUsers]]) of
      Inl e \<Rightarrow> None
    | Inr out \<Rightarrow> Some (js_path (returned out) [''paths'', ''/users'', ''get'', ''servers''],
                        js_get (returned out) ''servers'', warnings (generatorAfter out)))
     = Some (JArr [], JArr [], [AlreadyRegister ''get'' ''/users'' ''users.list''])
 \<and> (case fst (generate sampleExternals (JObj []) ''3.1'' 0 newGenerator
                [0 \<mapsto> [withServer ''http://a'' listUsers, withServer ''http://b'' searchUsers]]) of
      Inl e \<Rightarrow> None
    | Inr out \<Rightarrow> Some (js_path (returned out) [''paths'', ''/users'', ''get'', ''servers''],
                        js_path (returned out) [''paths'', ''/users'', ''get'', ''parameters''],
                        warnings (generatorAfter out)))
     = Some (JArr [JObj [(''url'', JStr ''http://a'')], JObj [(''url'', JStr ''http://b'')]],
             JArr [], [])"
  by code_simp




text \<open>
  Claim C4, as amended. When the base document declares no \<open>paths\<close> and the comparator
  orders by \<open>fullPath\<close> ascending, the path keys of the document that \<open>generate\<close>
  returns are, in this order, the keys \<open>formatParamUrl(normalizePath(fullPath))\<close> of the
  full paths taken in ascending order, each key at its first occurrence (and but for a
  key that is a marker key, which the final sweep deletes). The sorted list of the full
  paths is the same for every permutation of the routes, hence so are the path keys.
  The keys begin with a slash: an object lists its integer-like keys first, whatever the
  order in which they were added, and reads \<open>__proto__\<close> and the other names of
  \<open>Object.prototype\<close> through its prototype.
\<close>

theorem generate_path_order:
  assumes "generate E base openApiVersion aliasesRef g H = (Inr out, H')"
    and "H aliasesRef = Some aliases"
    and "\<forall>a b. (compareFullPath E a b \<le> 0) = (fullPath a \<le> fullPath b)"
    and "''paths'' \<notin> fst ` set (Object_entries base)"
    and "''paths'' \<notin> set (EOAExtensions_values (constants_of E))"
    and "list_all (\<lambda>a. take 1 (formatParamUrl (normalizePath E (fullPath a))) = ''/'') aliases"
  shows "pathKeys (returned out) =
     filter (\<lambda>k. k \<notin> set (EOAExtensions_values (constants_of E)))
       (uniq (map (\<lambda>p. formatParamUrl (normalizePath E p)) (sort (map fullPath aliases))))"
proof -
  from generate_returns_sorted [OF assms(1,2)] obtain doc S where
    seed: "seedDocument base openApiVersion = Inr doc" and
    loop: "foldM_err (aliasStep E) (array_sort (compareFullPath E) aliases)
                \<lparr>document = doc, tagsMap = [], cachePathActions = [],
                 gen = (if truthy (js_get base ''openapi'') then warn ManualVersion g else g)\<rparr>
              = Inr S" and
    fin: "finishDocument E S = Inr (returned out)"
    by blast
  from assms(3) have s: "array_sort (compareFullPath E) aliases = sort_key fullPath aliases"
    by (intro array_sort_sort_key) simp
  from seedDocument_paths [OF seed assms(4)] have p0: "pathKeys doc = []"
    by (simp add: pathKeys_def)
  from seedDocument_docInv [OF seed] obtain cs where inv: "docInv (components_json cs) doc"
    by blast
  from foldM_aliasStep_docInv [OF loop] inv have inv': "docInv (components_json cs) (document S)"
    by simp
  from foldM_aliasStep_pathKeys [OF loop] p0
  have k: "pathKeys (document S)
      = uniq (map (\<lambda>a. formatParamUrl (normalizePath E (fullPath a))) (sort_key fullPath aliases))"
    by (simp add: uniq_def s)
  have "map (\<lambda>a. formatParamUrl (normalizePath E (fullPath a))) (sort_key fullPath aliases)
      = map (\<lambda>p. formatParamUrl (normalizePath E p)) (sort (map fullPath aliases))"
    using map_sort_key [of fullPath aliases, symmetric] by (simp add: comp_def)
  with k have k': "pathKeys (document S)
      = uniq (map (\<lambda>p. formatParamUrl (normalizePath E p)) (sort (map fullPath aliases)))"
    by simp
  have "distinct (pathKeys (document S))"
    unfolding k' uniq_def by (rule distinct_uniq_fold) simp
  from finishDocument_pathKeys [OF fin inv' this assms(5)] k' show ?thesis by simp
qed

text \<open>
  The amended claim on an example: \<open>/users\<close> registered before \<open>/articles\<close>.
\<close>

theorem generate_path_order_witness:
  "\<exists>out H'. generate sampleExternals (JObj []) ''3.1'' 0 newGenerator [0 \<mapsto> unsortedRoutes]
               = (Inr out, H')
     \<and> pathKeys (returned out) = [''/articles'', ''/users'']"
proof -
  have "\<not> isl (fst (generate sampleExternals (JObj []) ''3.1'' 0 newGenerator [0 \<mapsto> unsortedRoutes]))"
    by code_simp
  then obtain out H' where r:
    "generate sampleExternals (JObj []) ''3.1'' 0 newGenerator [0 \<mapsto> unsortedRoutes] = (Inr out, H')"
    by (metis isl_def prod.collapse sum.collapse(2))
  have h: "[0 \<mapsto> unsortedRoutes] 0 = Some unsortedRoutes" by simp
  have c: "\<forall>a b. (compareFullPath sampleExternals a b \<le> 0) = (fullPath a \<le> fullPath b)"
    by (auto simp: sampleExternals_def)
  have b: "''paths'' \<notin> fst ` set (Object_entries (JObj []))" by simp
  have e: "''paths'' \<notin> set (EOAExtensions_values (constants_of sampleExternals))" by code_simp
  have v: "filter (\<lambda>k. k \<notin> set (EOAExtensions_values (constants_of sampleExternals)))
       (uniq (map (\<lambda>p. formatParamUrl (normalizePath sampleExternals p))
          (sort (map fullPath unsortedRoutes)))) = [''/articles'', ''/users'']"
    by code_simp
  have s: "list_all (\<lambda>a. take 1 (formatParamUrl (normalizePath sampleExternals (fullPath a))) = ''/'')
             unsortedRoutes"
    by code_simp
  from generate_path_order [OF r h c b e s] v r show ?thesis by auto
qed

text \<open>
  Claim C4 as stated fails when the base document declares paths: they are spread into
  the document before the routes are processed, so their keys come first. With \<open>/z\<close>
  declared by the base document, the path keys are \<open>/z\<close>, \<open>/articles\<close>, \<open>/users\<close>.
\<close>

theorem generate_path_order_counterexample:
  "(case fst (generate sampleExternals (JObj [(''paths'', JObj [(''/z'', JObj [])])]) ''3.1'' 0
                newGenerator [0 \<mapsto> unsortedRoutes]) of
      Inl e \<Rightarrow> []
    | Inr out \<Rightarrow> pathKeys (returned out))
     = [''/z'', ''/articles'', ''/users'']"
  by code_simp

end
